theory Spec2Isabelle
  imports Complex_Main "HOL-Library.Multiset" "HOL-Library.AList" "HOL-Library.Word"
begin

section \<open>Data model of the chat store (chatStore.ts)\<close>

text \<open>
  Strings are character lists; a \<open>Date\<close> is its epoch time in milliseconds; an optional
  property is an \<open>option\<close>. The optional booleans \<open>chatModeLocked\<close> and \<open>isTemporary\<close> are
  only ever tested for truthiness, so \<open>undefined\<close> and \<open>false\<close> are both \<open>False\<close>.
\<close>

datatype Role = User | Assistant

datatype ChatMode = Normal | Workspaces | Internet

record DocumentInfo =
  doc_id :: string
  doc_title :: string
  doc_filename :: string
  doc_authors :: "string list option"
  doc_year :: "int option"

record SearchResult =
  paragraph_id :: string
  sr_text :: string
  score :: real
  page :: "int option"
  section_path :: "string option"
  document :: DocumentInfo

record FormattedCitation =
  fc_index :: int
  fc_title :: string
  fc_url :: string
  fc_date :: string
  fc_snippet :: string
  fc_last_updated :: string

record ChatMessage =
  msg_id :: string
  role :: Role
  content :: string
  htmlContent :: "string option"
  timestamp :: int
  model :: "string option"
  searchResults :: "SearchResult list option"
  formattedCitations :: "FormattedCitation list option"
  citations :: "string list option"
  contextUsed :: "bool option"

record ChatConversation =
  conv_id :: string
  title :: string
  messages :: "ChatMessage list"
  modelId :: string
  createdAt :: int
  updatedAt :: int
  selectedWorkspaces :: "string list option"
  selectedDocuments :: "(string \<times> string list) list option"
  chatMode :: "ChatMode option"
  chatModeLocked :: bool
  conv_selectedDomains :: "string list option"
  isTemporary :: bool

text \<open>
  The three keys \<open>saveToLocalStorage\<close> writes: the serialised permanent conversations, the
  selected model and the current conversation id.
\<close>

record LocalStorage =
  stored_conversations :: "ChatConversation list option"
  stored_selected_model :: "string option"
  stored_current_conversation :: "string option"

text \<open>
  Conversation objects are shared between the \<open>conversations\<close> array and the closures of
  pending \<open>sendMessage\<close> calls, which mutate them in place. They live in an object heap
  (\<open>heap\<close>, addresses allocated from \<open>nextAddr\<close>); the array holds addresses. An
  \<open>AbortController\<close> is an address too: \<open>aborted\<close> is the set of controllers whose signal has
  been aborted, \<open>nextController\<close> the next fresh one. The \<open>Map\<close> \<open>requestQueue\<close> is an
  association list in insertion order (\<open>map_of\<close> for \<open>get\<close>, \<open>AList.update\<close> for \<open>set\<close>,
  \<open>AList.delete\<close> for \<open>delete\<close>).
\<close>

record ChatStore =
  heap :: "nat \<Rightarrow> ChatConversation"
  nextAddr :: nat
  conversations :: "nat list"
  currentConversationId :: "string option"
  selectedModelId :: string
  isLoading :: bool
  error :: "string option"
  storeChatMode :: "ChatMode option"
  selectedDomains :: "string list"
  activeRequests :: "string set"
  requestQueue :: "(string \<times> nat) list"
  aborted :: "nat set"
  nextController :: nat
  localStorage :: LocalStorage

subsection \<open>Identifiers built from the clock\<close>

text \<open>The decimal rendering of a template literal \<open>${Date.now()}\<close>.\<close>

definition digitChar :: "nat \<Rightarrow> char" where
  "digitChar d = ''0123456789'' ! d"

function showNat :: "nat \<Rightarrow> string" where
  "showNat n = (if n < 10 then [digitChar n] else showNat (n div 10) @ [digitChar (n mod 10)])"
  by pat_completeness auto
termination
  by (relation "measure id") auto

declare showNat.simps [simp del]

text \<open>
  \<open>chat-${Date.now()}-${Math.random().toString(36).substr(2, 9)}\<close>: the clock reading and
  the random suffix are inputs.
\<close>

definition conversationId :: "nat \<Rightarrow> string \<Rightarrow> string" where
  "conversationId now rnd = ''chat-'' @ showNat now @ ''-'' @ rnd"

definition requestIdOf :: "nat \<Rightarrow> string \<Rightarrow> string" where
  "requestIdOf now rnd = ''req-'' @ showNat now @ ''-'' @ rnd"

definition userMessageId :: "nat \<Rightarrow> string" where
  "userMessageId now = ''msg-'' @ showNat now @ ''-user''"

definition placeholderMessageId :: "nat \<Rightarrow> string" where
  "placeholderMessageId now = ''msg-'' @ showNat now @ ''-assistant-placeholder''"

definition assistantMessageId :: "nat \<Rightarrow> string" where
  "assistantMessageId now = ''msg-'' @ showNat now @ ''-assistant''"

subsection \<open>Computed properties\<close>

text \<open>The conversation objects of the array, in array order.\<close>

definition conversationList :: "ChatStore \<Rightarrow> ChatConversation list" where
  "conversationList s = map (heap s) (conversations s)"

text \<open>
  \<open>currentConversation\<close>: \<open>null\<close> when the id is \<open>null\<close> or the empty string (both falsy),
  else the first conversation of the array with that id.
\<close>

definition currentConversation :: "ChatStore \<Rightarrow> nat option" where
  "currentConversation s =
     (case currentConversationId s of
        None \<Rightarrow> None
      | Some i \<Rightarrow> if i = [] then None
                  else find (\<lambda>a. conv_id (heap s a) = i) (conversations s))"

text \<open>
  \<open>sortedConversations\<close>: a copy sorted by \<open>updatedAt\<close>, newest first;
  \<open>Array.prototype.sort\<close> is stable, as \<open>sort_key\<close> is.
\<close>

definition sortedConversations :: "ChatStore \<Rightarrow> ChatConversation list" where
  "sortedConversations s = sort_key (\<lambda>c. - updatedAt c) (conversationList s)"

subsection \<open>Persistence\<close>

definition saveToLocalStorage :: "ChatStore \<Rightarrow> ChatStore" where
  "saveToLocalStorage s =
     (let permanent = filter (\<lambda>c. \<not> isTemporary c) (conversationList s);
          ls1 = (localStorage s)\<lparr> stored_conversations := Some permanent,
                                  stored_selected_model := Some (selectedModelId s) \<rparr>;
          ls2 = (case currentConversationId s of
                   None \<Rightarrow> ls1
                 | Some i \<Rightarrow>
                     if i = [] then ls1
                     else (case find (\<lambda>c. conv_id c = i) (conversationList s) of
                             None \<Rightarrow> ls1
                           | Some c \<Rightarrow> if isTemporary c then ls1
                                       else ls1\<lparr> stored_current_conversation := Some i \<rparr>))
      in s\<lparr> localStorage := ls2 \<rparr>)"

subsection \<open>Creating and deleting conversations\<close>

text \<open>
  \<open>createNewConversation(title?, isTemporary = false)\<close>. The new id is the new value of
  \<open>currentConversationId\<close>, which is what the source returns.
\<close>

definition newConversation ::
  "ChatStore \<Rightarrow> string option \<Rightarrow> bool \<Rightarrow> nat \<Rightarrow> string \<Rightarrow> ChatConversation" where
  "newConversation s ttl temporary now rnd =
     \<lparr> conv_id = conversationId now rnd,
       title = (case ttl of None \<Rightarrow> ''New Chat'' | Some t \<Rightarrow> if t = [] then ''New Chat'' else t),
       messages = [],
       modelId = selectedModelId s,
       createdAt = int now,
       updatedAt = int now,
       selectedWorkspaces = None,
       selectedDocuments = None,
       chatMode = None,
       chatModeLocked = False,
       conv_selectedDomains = Some (selectedDomains s),
       isTemporary = temporary \<rparr>"

definition createNewConversation ::
  "ChatStore \<Rightarrow> string option \<Rightarrow> bool \<Rightarrow> nat \<Rightarrow> string \<Rightarrow> ChatStore" where
  "createNewConversation s ttl temporary now rnd =
     (let conversation = newConversation s ttl temporary now rnd;
          kept = (if temporary
                  then filter (\<lambda>a. \<not> isTemporary (heap s a)
                                   \<or> length (messages (heap s a)) > 0
                                   \<or> Some (conv_id (heap s a)) = currentConversationId s)
                         (conversations s)
                  else conversations s);
          a = nextAddr s;
          s1 = s\<lparr> heap := (heap s)(a := conversation),
                  nextAddr := Suc a,
                  conversations := kept @ [a],
                  currentConversationId := Some (conv_id conversation) \<rparr>
      in if temporary then s1 else saveToLocalStorage s1)"

text \<open>\<open>findIndex\<close> (\<open>None\<close> for \<open>-1\<close>) and \<open>splice(index, 1)\<close>.\<close>

fun findIndex :: "('a \<Rightarrow> bool) \<Rightarrow> 'a list \<Rightarrow> nat option" where
  "findIndex P [] = None"
| "findIndex P (x # xs) =
     (if P x then Some 0 else (case findIndex P xs of None \<Rightarrow> None | Some i \<Rightarrow> Some (Suc i)))"

definition splice1 :: "nat \<Rightarrow> 'a list \<Rightarrow> 'a list" where
  "splice1 i xs = take i xs @ drop (Suc i) xs"

definition deleteConversation :: "ChatStore \<Rightarrow> string \<Rightarrow> ChatStore" where
  "deleteConversation s i =
     (case findIndex (\<lambda>a. conv_id (heap s a) = i) (conversations s) of
        None \<Rightarrow> s
      | Some k \<Rightarrow>
          let deletedConversation = heap s (conversations s ! k);
              remaining = splice1 k (conversations s);
              s1 = s\<lparr> conversations := remaining \<rparr>;
              s2 = (if currentConversationId s1 = Some i
                    then s1\<lparr> currentConversationId :=
                               (case remaining of [] \<Rightarrow> None
                                | a # _ \<Rightarrow> Some (conv_id (heap s1 a))) \<rparr>
                    else s1)
          in if isTemporary deletedConversation then s2 else saveToLocalStorage s2)"

text \<open>The store as \<open>defineStore\<close> first builds it; unallocated addresses hold a blank object.\<close>

definition blankConversation :: ChatConversation where
  "blankConversation =
     \<lparr> conv_id = [], title = [], messages = [], modelId = [], createdAt = 0, updatedAt = 0,
       selectedWorkspaces = None, selectedDocuments = None, chatMode = None,
       chatModeLocked = False, conv_selectedDomains = None, isTemporary = False \<rparr>"

definition initialStore :: ChatStore where
  "initialStore =
     \<lparr> heap = (\<lambda>_. blankConversation), nextAddr = 0, conversations = [],
       currentConversationId = None, selectedModelId = ''gpt-5'', isLoading = False,
       error = None, storeChatMode = Some Normal, selectedDomains = [],
       activeRequests = {}, requestQueue = [], aborted = {}, nextController = 0,
       localStorage = \<lparr> stored_conversations = None, stored_selected_model = None,
                        stored_current_conversation = None \<rparr> \<rparr>"


definition selectConversation :: "ChatStore \<Rightarrow> string \<Rightarrow> ChatStore" where
  "selectConversation s i =
     (case find (\<lambda>a. conv_id (heap s a) = i) (conversations s) of
        None \<Rightarrow> s
      | Some a \<Rightarrow>
          let s1 = s\<lparr> currentConversationId := Some i,
                      selectedModelId := modelId (heap s a),
                      selectedDomains := (case conv_selectedDomains (heap s a) of
                                            None \<Rightarrow> [] | Some d \<Rightarrow> d) \<rparr>
          in if isTemporary (heap s a) then s1 else saveToLocalStorage s1)"

section \<open>sendMessage\<close>

text \<open>
  \<open>sendMessage\<close> is an \<open>async\<close> function with one \<open>await\<close>, on \<open>api.post\<close>. It is cut
  there: \<open>sendMessage_start\<close> is the synchronous part up to the \<open>await\<close>; it returns the
  store and the locals the suspended call keeps (\<open>PendingSend\<close>) together with the request
  it issued. \<open>sendMessage_resume\<close> is the part that runs when the promise of \<open>api.post\<close>
  settles, with what it settled to (\<open>ApiOutcome\<close>). The clock is read once per part.
\<close>

record ChatRequest =
  req_message :: string
  req_model_id :: string
  req_request_id :: string
  req_conversation_history :: "(Role \<times> string) list"
  req_chat_mode :: "ChatMode option"
  req_selected_workspaces :: "string list"
  req_selected_documents :: "(string \<times> string list) list"
  req_selected_domains :: "string list"
  req_signal :: nat
  req_timeout :: nat

record ResponsePayload =
  rp_content :: string
  rp_html_content :: "string option"
  rp_timestamp :: int
  rp_model :: "string option"
  rp_search_results :: "SearchResult list option"
  rp_formatted_citations :: "FormattedCitation list option"
  rp_citations :: "string list option"
  rp_context_used :: "bool option"

record ResponseData =
  rd_success :: bool
  rd_response :: "ResponsePayload option"
  rd_error :: "string option"

text \<open>
  What the \<open>catch\<close> block reads of a thrown value: \<open>e.name\<close>, \<open>e.code\<close>, \<open>e.message\<close> and
  \<open>e.response?.data?.error\<close>.
\<close>

record JsError =
  err_name :: string
  err_code :: "string option"
  err_message :: string
  err_response_error :: "string option"

datatype ApiOutcome = Resolved ResponseData | Rejected JsError

record PendingSend =
  p_conversation :: nat
  p_requestId :: string
  p_abortController :: nat
  p_placeholderId :: string
  p_request :: ChatRequest

definition modConv :: "nat \<Rightarrow> (ChatConversation \<Rightarrow> ChatConversation) \<Rightarrow> ChatStore \<Rightarrow> ChatStore" where
  "modConv a f s = s\<lparr> heap := (heap s)(a := f (heap s a)) \<rparr>"

definition userMessage :: "string \<Rightarrow> nat \<Rightarrow> ChatMessage" where
  "userMessage cnt now =
     \<lparr> msg_id = userMessageId now, role = User, content = cnt, htmlContent = None,
       timestamp = int now, model = None, searchResults = None, formattedCitations = None,
       citations = None, contextUsed = None \<rparr>"

definition placeholderMessage :: "nat \<Rightarrow> ChatMessage" where
  "placeholderMessage now =
     \<lparr> msg_id = placeholderMessageId now, role = Assistant, content = ''...'',
       htmlContent = None, timestamp = int now, model = None, searchResults = None,
       formattedCitations = None, citations = None, contextUsed = None \<rparr>"

definition assistantMessage :: "ResponsePayload \<Rightarrow> nat \<Rightarrow> ChatMessage" where
  "assistantMessage r now =
     \<lparr> msg_id = assistantMessageId now, role = Assistant, content = rp_content r,
       htmlContent = rp_html_content r, timestamp = rp_timestamp r, model = rp_model r,
       searchResults = Some (case rp_search_results r of None \<Rightarrow> [] | Some x \<Rightarrow> x),
       formattedCitations = Some (case rp_formatted_citations r of None \<Rightarrow> [] | Some x \<Rightarrow> x),
       citations = Some (case rp_citations r of None \<Rightarrow> [] | Some x \<Rightarrow> x),
       contextUsed = Some (case rp_context_used r of None \<Rightarrow> False | Some b \<Rightarrow> b) \<rparr>"

text \<open>
  The blocks of the synchronous part, in the order of the source: make sure there is a
  current conversation; cancel any existing request for this conversation; create the new
  abort controller and register the request; add the user message; update title, mode and
  permanence if this is the first message; add the placeholder assistant message and set
  the flags; build the request.
\<close>

definition ensureConversation :: "ChatStore \<Rightarrow> nat \<Rightarrow> string \<Rightarrow> ChatStore" where
  "ensureConversation s now rndC =
     (if currentConversationId s = None \<or> currentConversationId s = Some []
      then createNewConversation s None False now rndC else s)"

definition cancelExistingRequest :: "string \<Rightarrow> ChatStore \<Rightarrow> ChatStore" where
  "cancelExistingRequest cid s =
     (case map_of (requestQueue s) cid of
        None \<Rightarrow> s
      | Some existingController \<Rightarrow>
          s\<lparr> aborted := insert existingController (aborted s),
             requestQueue := AList.delete cid (requestQueue s) \<rparr>)"

definition registerRequest :: "string \<Rightarrow> string \<Rightarrow> ChatStore \<Rightarrow> ChatStore" where
  "registerRequest cid requestId s =
     s\<lparr> nextController := Suc (nextController s),
        requestQueue := AList.update cid (nextController s) (requestQueue s),
        activeRequests := insert requestId (activeRequests s) \<rparr>"

definition addUserMessage :: "nat \<Rightarrow> string \<Rightarrow> nat \<Rightarrow> ChatStore \<Rightarrow> ChatStore" where
  "addUserMessage conv cnt now s =
     modConv conv (\<lambda>c. c\<lparr> messages := messages c @ [userMessage cnt now],
                            updatedAt := int now \<rparr>) s"

definition firstMessageUpdate :: "nat \<Rightarrow> string \<Rightarrow> ChatStore \<Rightarrow> ChatStore" where
  "firstMessageUpdate conv cnt s =
     (if length (messages (heap s conv)) = 1
      then let s1 = modConv conv
                      (\<lambda>c. c\<lparr> title := (if length cnt > 50 then take 50 cnt @ ''...'' else cnt),
                               chatMode := storeChatMode s,
                               chatModeLocked := True \<rparr>) s
           in if isTemporary (heap s1 conv)
              then saveToLocalStorage (modConv conv (\<lambda>c. c\<lparr> isTemporary := False \<rparr>) s1)
              else s1
      else s)"

definition addPlaceholder :: "nat \<Rightarrow> nat \<Rightarrow> ChatStore \<Rightarrow> ChatStore" where
  "addPlaceholder conv now s =
     (modConv conv (\<lambda>c. c\<lparr> messages := messages c @ [placeholderMessage now] \<rparr>) s)
       \<lparr> isLoading := True, error := None \<rparr>"

definition chatRequest :: "ChatStore \<Rightarrow> nat \<Rightarrow> string \<Rightarrow> string \<Rightarrow> nat \<Rightarrow> ChatRequest" where
  "chatRequest s conv cnt requestId abortController =
     \<lparr> req_message = cnt,
       req_model_id = selectedModelId s,
       req_request_id = requestId,
       req_conversation_history =
         map (\<lambda>m. (role m, content m)) (butlast (butlast (messages (heap s conv)))),
       req_chat_mode = storeChatMode s,
       req_selected_workspaces =
         (case selectedWorkspaces (heap s conv) of None \<Rightarrow> [] | Some w \<Rightarrow> w),
       req_selected_documents =
         (case selectedDocuments (heap s conv) of None \<Rightarrow> [] | Some d \<Rightarrow> d),
       req_selected_domains = selectedDomains s,
       req_signal = abortController,
       req_timeout = 120000 \<rparr>"

definition sendMessage_start ::
  "ChatStore \<Rightarrow> string \<Rightarrow> nat \<Rightarrow> string \<Rightarrow> string \<Rightarrow> ChatStore \<times> PendingSend option" where
  "sendMessage_start s0 cnt now rndC rndR =
     (let s1 = ensureConversation s0 now rndC
      in case currentConversation s1 of
           None \<Rightarrow> (s1, None)
         | Some conv \<Rightarrow>
             let requestId = requestIdOf now rndR;
                 cid = conv_id (heap s1 conv);
                 s2 = cancelExistingRequest cid s1;
                 abortController = nextController s2;
                 s3 = registerRequest cid requestId s2;
                 s4 = addUserMessage conv cnt now s3;
                 s5 = firstMessageUpdate conv cnt s4;
                 s6 = addPlaceholder conv now s5
             in (s6, Some \<lparr> p_conversation = conv, p_requestId = requestId,
                             p_abortController = abortController,
                             p_placeholderId = placeholderMessageId now,
                             p_request = chatRequest s6 conv cnt requestId abortController \<rparr>))"

text \<open>\<open>findIndex(msg => msg.id === placeholderMessage.id)\<close>, then \<open>splice\<close> unless \<open>-1\<close>.\<close>

definition removePlaceholder :: "nat \<Rightarrow> string \<Rightarrow> ChatStore \<Rightarrow> ChatStore" where
  "removePlaceholder conv pid s =
     (case findIndex (\<lambda>m. msg_id m = pid) (messages (heap s conv)) of
        None \<Rightarrow> s
      | Some k \<Rightarrow> modConv conv (\<lambda>c. c\<lparr> messages := splice1 k (messages c) \<rparr>) s)"

text \<open>\<open>e.response?.data?.error || e.message || 'Failed to send message'\<close>.\<close>

definition errorText :: "JsError \<Rightarrow> string" where
  "errorText e =
     (case err_response_error e of
        Some x \<Rightarrow> if x \<noteq> [] then x
                  else if err_message e \<noteq> [] then err_message e else ''Failed to send message''
      | None \<Rightarrow> if err_message e \<noteq> [] then err_message e else ''Failed to send message'')"

definition isCancellation :: "JsError \<Rightarrow> bool" where
  "isCancellation e = (err_name e = ''AbortError'' \<or> err_code e = Some ''ECONNABORTED'')"

definition sendMessage_catch :: "PendingSend \<Rightarrow> JsError \<Rightarrow> ChatStore \<Rightarrow> ChatStore" where
  "sendMessage_catch p e s =
     (let s1 = removePlaceholder (p_conversation p) (p_placeholderId p) s
      in if isCancellation e then s1 else s1\<lparr> error := Some (errorText e) \<rparr>)"

definition sendMessage_finally :: "PendingSend \<Rightarrow> ChatStore \<Rightarrow> ChatStore" where
  "sendMessage_finally p s =
     (let conversation = heap s (p_conversation p);
          s1 = s\<lparr> activeRequests := activeRequests s - {p_requestId p},
                  requestQueue := AList.delete (conv_id conversation) (requestQueue s),
                  isLoading := False \<rparr>
      in if isTemporary conversation then s1 else saveToLocalStorage s1)"

text \<open>
  The errors the \<open>try\<close> block itself throws: \<open>new Error(response.data.error || 'Failed to
  send message')\<close>, and the \<open>TypeError\<close> of reading \<open>content\<close> of an absent
  \<open>response.data.response\<close> (its message is the engine's).
\<close>

definition failureError :: "ResponseData \<Rightarrow> JsError" where
  "failureError d =
     \<lparr> err_name = ''Error'', err_code = None,
       err_message = (case rd_error d of
                        None \<Rightarrow> ''Failed to send message''
                      | Some x \<Rightarrow> if x = [] then ''Failed to send message'' else x),
       err_response_error = None \<rparr>"

definition typeError :: JsError where
  "typeError =
     \<lparr> err_name = ''TypeError'', err_code = None,
       err_message = ''Cannot read properties of undefined (reading 'content')'',
       err_response_error = None \<rparr>"

definition sendMessage_resume :: "ChatStore \<Rightarrow> PendingSend \<Rightarrow> ApiOutcome \<Rightarrow> nat \<Rightarrow> ChatStore" where
  "sendMessage_resume s p outcome now =
     sendMessage_finally p
       (case outcome of
          Rejected e \<Rightarrow> sendMessage_catch p e s
        | Resolved d \<Rightarrow>
            if p_requestId p \<notin> activeRequests s then s
            else if rd_success d
            then (let s1 = removePlaceholder (p_conversation p) (p_placeholderId p) s
                  in case rd_response d of
                       None \<Rightarrow> sendMessage_catch p typeError s1
                     | Some r \<Rightarrow>
                         modConv (p_conversation p)
                           (\<lambda>c. c\<lparr> messages := messages c @ [assistantMessage r now],
                                    updatedAt := int now \<rparr>) s1)
            else sendMessage_catch p (failureError d) s)"

definition cancelActiveRequests :: "ChatStore \<Rightarrow> ChatStore" where
  "cancelActiveRequests s =
     s\<lparr> aborted := aborted s \<union> set (map snd (requestQueue s)),
        requestQueue := [],
        activeRequests := {},
        isLoading := False \<rparr>"

subsection \<open>Interleavings\<close>

text \<open>
  The event loop runs one synchronous part at a time. A \<open>System\<close> is the store with the
  suspended \<open>sendMessage\<close> calls; an event is a store action called by the UI or the
  settling of the \<open>k\<close>-th suspended call.
\<close>

record System =
  store :: ChatStore
  pending :: "PendingSend list"

datatype Event =
    Send string nat string string
  | Settle nat ApiOutcome nat
  | CancelActiveRequests
  | NewConversation "string option" bool nat string
  | SelectConversation string
  | DeleteConversation string

fun step :: "System \<Rightarrow> Event \<Rightarrow> System" where
  "step sys (Send cnt now rndC rndR) =
     (case sendMessage_start (store sys) cnt now rndC rndR of
        (s, None) \<Rightarrow> sys\<lparr> store := s \<rparr>
      | (s, Some p) \<Rightarrow> \<lparr> store = s, pending = pending sys @ [p] \<rparr>)"
| "step sys (Settle k outcome now) =
     (if k < length (pending sys)
      then \<lparr> store = sendMessage_resume (store sys) (pending sys ! k) outcome now,
             pending = splice1 k (pending sys) \<rparr>
      else sys)"
| "step sys CancelActiveRequests = sys\<lparr> store := cancelActiveRequests (store sys) \<rparr>"
| "step sys (NewConversation ttl temporary now rnd) =
     sys\<lparr> store := createNewConversation (store sys) ttl temporary now rnd \<rparr>"
| "step sys (SelectConversation i) = sys\<lparr> store := selectConversation (store sys) i \<rparr>"
| "step sys (DeleteConversation i) = sys\<lparr> store := deleteConversation (store sys) i \<rparr>"

definition run :: "System \<Rightarrow> Event list \<Rightarrow> System" where
  "run = foldl step"

definition initialSystem :: System where
  "initialSystem = \<lparr> store = initialStore, pending = [] \<rparr>"

section \<open>Notions used to state the properties of the store\<close>

text \<open>A temporary conversation no message was ever added to.\<close>

definition emptyTemporary :: "ChatConversation \<Rightarrow> bool" where
  "emptyTemporary c = (isTemporary c \<and> messages c = [])"

text \<open>Objects are allocated in order: every conversation of the array was allocated.\<close>

definition heapAllocated :: "ChatStore \<Rightarrow> bool" where
  "heapAllocated s = list_all (\<lambda>a. a < nextAddr s) (conversations s)"

text \<open>Three conversations \<open>a\<close>, \<open>b\<close>, \<open>c\<close>, each updated later than the one before; \<open>a\<close> is current.\<close>

definition exampleConversation :: "string \<Rightarrow> int \<Rightarrow> ChatConversation" where
  "exampleConversation i t = blankConversation\<lparr> conv_id := i, updatedAt := t \<rparr>"

definition threeConversations :: ChatStore where
  "threeConversations =
     initialStore\<lparr> heap := (\<lambda>_. blankConversation)
                       (0 := exampleConversation ''a'' 10,
                        1 := exampleConversation ''b'' 20,
                        2 := exampleConversation ''c'' 30),
                   nextAddr := 3,
                   conversations := [0, 1, 2],
                   currentConversationId := Some ''a'' \<rparr>"

section \<open>Example errors, replies and traces\<close>

text \<open>
  The rejection of a request that ran into its \<open>timeout\<close>: the HTTP client (axios) rejects
  with the code \<open>ECONNABORTED\<close> and the message \<open>timeout of 120000ms exceeded\<close>. The
  rejection of a request whose signal was aborted, as the \<open>catch\<close> block expects it: an
  error named \<open>AbortError\<close>.
\<close>

definition timeoutError :: JsError where
  "timeoutError =
     \<lparr> err_name = ''AxiosError'', err_code = Some ''ECONNABORTED'',
       err_message = ''timeout of 120000ms exceeded'', err_response_error = None \<rparr>"

definition abortError :: JsError where
  "abortError =
     \<lparr> err_name = ''AbortError'', err_code = None,
       err_message = ''The operation was aborted'', err_response_error = None \<rparr>"

text \<open>
  The rejection axios itself gives a request whose signal was aborted: the name
  \<open>CanceledError\<close>, the code \<open>ERR_CANCELED\<close> and the message \<open>canceled\<close>.
\<close>

definition canceledError :: JsError where
  "canceledError =
     \<lparr> err_name = ''CanceledError'', err_code = Some ''ERR_CANCELED'',
       err_message = ''canceled'', err_response_error = None \<rparr>"

definition networkError :: JsError where
  "networkError =
     \<lparr> err_name = ''AxiosError'', err_code = Some ''ERR_NETWORK'',
       err_message = ''Network Error'', err_response_error = None \<rparr>"

text \<open>A successful reply with the given content and nothing else.\<close>

definition reply :: "string \<Rightarrow> ApiOutcome" where
  "reply c =
     Resolved \<lparr> rd_success = True,
                rd_response = Some \<lparr> rp_content = c, rp_html_content = None, rp_timestamp = 0,
                                     rp_model = None, rp_search_results = None,
                                     rp_formatted_citations = None, rp_citations = None,
                                     rp_context_used = None \<rparr>,
                rd_error = None \<rparr>"

section \<open>Notions used to state the properties of sendMessage\<close>

text \<open>
  The placeholder is the assistant message whose content is the sentinel \<open>...\<close>; the ids
  \<open>sendMessage\<close> gives placeholders end in \<open>-assistant-placeholder\<close> (22 characters).
\<close>

definition isPlaceholder :: "ChatMessage \<Rightarrow> bool" where
  "isPlaceholder m = (role m = Assistant \<and> content m = ''...'')"

definition isPlaceholderId :: "string \<Rightarrow> bool" where
  "isPlaceholderId i = (take 22 (rev i) = rev ''-assistant-placeholder'')"

text \<open>What \<open>findIndex\<close> by id followed by \<open>splice\<close> does to a message list.\<close>

fun removeFirstId :: "string \<Rightarrow> ChatMessage list \<Rightarrow> ChatMessage list" where
  "removeFirstId i [] = []"
| "removeFirstId i (m # ms) = (if msg_id m = i then ms else m # removeFirstId i ms)"

text \<open>The suspended calls on the conversation object \<open>a\<close>, and its placeholders.\<close>

definition pendingOn :: "System \<Rightarrow> nat \<Rightarrow> PendingSend list" where
  "pendingOn sys a = filter (\<lambda>p. p_conversation p = a) (pending sys)"

definition placeholdersIn :: "System \<Rightarrow> nat \<Rightarrow> ChatMessage list" where
  "placeholdersIn sys a = filter isPlaceholder (messages (heap (store sys) a))"

text \<open>
  The state is well formed when the objects of the array are allocated and every suspended
  call holds a placeholder id; both hold initially and are kept by every event.
\<close>

definition wellFormed :: "System \<Rightarrow> bool" where
  "wellFormed sys =
     (heapAllocated (store sys) \<and>
      list_all (\<lambda>p. isPlaceholderId (p_placeholderId p)) (pending sys))"

text \<open>
  Placeholders are accounted for when, in every conversation object, a message with the
  sentinel content has a placeholder id, and the placeholder ids of its messages are among
  those of the calls suspended on it, counted with multiplicity.
\<close>

definition placeholdersAccounted :: "System \<Rightarrow> bool" where
  "placeholdersAccounted sys =
     (\<forall>a. list_all (\<lambda>m. isPlaceholder m \<longrightarrow> isPlaceholderId (msg_id m))
              (messages (heap (store sys) a)) \<and>
          mset (filter isPlaceholderId (map msg_id (messages (heap (store sys) a))))
            \<subseteq># mset (map p_placeholderId (pendingOn sys a)))"

text \<open>
  An event is admissible unless it settles a call with a response after the call's request
  id has left \<open>activeRequests\<close> (the early \<open>return\<close> of the source), or with a reply whose
  content is itself the sentinel.
\<close>

fun admissible :: "System \<Rightarrow> Event \<Rightarrow> bool" where
  "admissible sys (Settle k (Resolved d) now) =
     (k < length (pending sys) \<longrightarrow>
        p_requestId (pending sys ! k) \<in> activeRequests (store sys) \<and>
        (case rd_response d of None \<Rightarrow> True | Some r \<Rightarrow> rp_content r \<noteq> ''...''))"
| "admissible sys _ = True"

fun admissibleRun :: "System \<Rightarrow> Event list \<Rightarrow> bool" where
  "admissibleRun sys [] = True"
| "admissibleRun sys (e # es) = (admissible sys e \<and> admissibleRun (step sys e) es)"

text \<open>
  Three sends on one conversation: the second supersedes the first, the rejection of the
  aborted first request is handled, then the third is sent while the second is in flight.
\<close>

definition threeSends :: "Event list" where
  "threeSends =
     [Send ''a'' 1 ''x'' ''r1'', Send ''b'' 2 ''x'' ''r2'',
      Settle 0 (Rejected abortError) 3, Send ''c'' 4 ''x'' ''r3'']"

section \<open>PDF byte assembly (ChatPane.vue)\<close>

text \<open>
  A \<open>Uint8Array\<close> is a list of bytes. A binary string, as \<open>atob\<close> returns it, is a string
  whose characters have the codes 0 to 255, which is what a \<open>char\<close> is.
\<close>

type_synonym byte = "8 word"

type_synonym Uint8Array = "byte list"

definition charCodeAt :: "char \<Rightarrow> byte" where
  "charCodeAt c = word_of_nat (of_char c)"

subsection \<open>The platform's base64 decoder\<close>

text \<open>
  \<open>atob\<close> is the browser's, not the repository's: it is modelled after the forgiving-base64
  decode of the WHATWG Infra standard, which \<open>atob\<close> is specified to run. Remove ASCII
  whitespace; if the length is a multiple of 4, remove one or two trailing \<open>=\<close>; fail if the
  length is then 1 modulo 4 or a character is outside the alphabet; decode 6 bits per
  character, three bytes per four characters, and drop the 4 or 2 spare bits of a last
  group of two or three characters. \<open>None\<close> is the \<open>InvalidCharacterError\<close> it throws.
\<close>

definition isAsciiWhitespace :: "char \<Rightarrow> bool" where
  "isAsciiWhitespace c = (c \<in> set [CHR 0x09, CHR 0x0A, CHR 0x0C, CHR 0x0D, CHR 0x20])"

definition base64Alphabet :: string where
  "base64Alphabet = ''ABCDEFGHIJKLMNOPQRSTUVWXYZabcdefghijklmnopqrstuvwxyz0123456789+/''"

definition isBase64Char :: "char \<Rightarrow> bool" where
  "isBase64Char c = (c \<in> set base64Alphabet)"

definition base64Value :: "char \<Rightarrow> nat" where
  "base64Value c = (case findIndex (\<lambda>x. x = c) base64Alphabet of None \<Rightarrow> 0 | Some k \<Rightarrow> k)"

fun decodeSextets :: "nat list \<Rightarrow> string" where
  "decodeSextets (a # b # c # d # rest) =
     (let n = ((a * 64 + b) * 64 + c) * 64 + d
      in char_of (n div 65536) # char_of (n div 256) # char_of n # decodeSextets rest)"
| "decodeSextets [a, b, c] =
     (let n = ((a * 64 + b) * 64 + c) div 4 in [char_of (n div 256), char_of n])"
| "decodeSextets [a, b] = [char_of ((a * 64 + b) div 16)]"
| "decodeSextets [a] = []"
| "decodeSextets [] = []"

definition stripPadding :: "string \<Rightarrow> string" where
  "stripPadding d =
     (if length d mod 4 = 0
      then (if 2 \<le> length d \<and> last d = CHR ''='' \<and> last (butlast d) = CHR ''=''
            then butlast (butlast d)
            else if 1 \<le> length d \<and> last d = CHR ''='' then butlast d
            else d)
      else d)"

definition atob :: "string \<Rightarrow> string option" where
  "atob dat =
     (let d = stripPadding (filter (\<lambda>c. \<not> isAsciiWhitespace c) dat)
      in if length d mod 4 = 1 then None
         else if \<not> list_all isBase64Char d then None
         else Some (decodeSextets (map base64Value d)))"

text \<open>
  \<open>TextEncoder.encode\<close> of a binary string: the UTF-8 encoding of code points below 256.
\<close>

definition textEncode :: "string \<Rightarrow> Uint8Array" where
  "textEncode b =
     concat (map (\<lambda>c. let n = (of_char c :: nat)
                         in if n < 128 then [word_of_nat n]
                            else [word_of_nat (192 + n div 64), word_of_nat (128 + n mod 64)]) b)"

subsection \<open>Validation and decoding\<close>

text \<open>
  \<open>isValidBase64\<close>: the regular expression \<open>^[A-Za-z0-9+/]*={0,2}$\<close> and a length that is
  a multiple of 4.
\<close>

definition isValidBase64 :: "string \<Rightarrow> bool" where
  "isValidBase64 str =
     (dropWhile isBase64Char str \<in> set [[], ''='', ''==''] \<and> length str mod 4 = 0)"

text \<open>\<open>s.padEnd(Math.ceil(s.length / 4) * 4, '=')\<close>.\<close>

definition padEnd4 :: "string \<Rightarrow> string" where
  "padEnd4 s = s @ replicate (((length s + 3) div 4) * 4 - length s) CHR ''=''"

text \<open>Whitespace as the regular expression \<open>\\s\<close> has it, among the characters below 256.\<close>

definition isRegexWhitespace :: "char \<Rightarrow> bool" where
  "isRegexWhitespace c =
     (c \<in> set [CHR 0x09, CHR 0x0A, CHR 0x0B, CHR 0x0C, CHR 0x0D, CHR 0x20, CHR 0xA0])"

datatype ConversionError = InvalidCharacterError | RangeError | AllMethodsFailed

definition chunkSize :: nat where
  "chunkSize = 100000"

text \<open>\<open>result.set(chunkBytes, resultOffset)\<close>, which throws when the chunk does not fit.\<close>

definition setAt :: "Uint8Array \<Rightarrow> Uint8Array \<Rightarrow> nat \<Rightarrow> ConversionError + Uint8Array" where
  "setAt result chunkBytes off =
     (if off + length chunkBytes > length result then Inl RangeError
      else Inr (take off result @ chunkBytes @ drop (off + length chunkBytes) result))"

text \<open>The \<open>for\<close> loop of \<open>base64ToUint8ArrayChunked\<close>, from index \<open>i\<close>.\<close>

function chunkLoop ::
  "string \<Rightarrow> nat \<Rightarrow> Uint8Array \<Rightarrow> nat \<Rightarrow> ConversionError + Uint8Array" where
  "chunkLoop base64 i result resultOffset =
     (if i < length base64
      then (case atob (padEnd4 (take chunkSize (drop i base64))) of
              None \<Rightarrow> Inl InvalidCharacterError
            | Some binaryString \<Rightarrow>
                (case setAt result (map charCodeAt binaryString) resultOffset of
                   Inl e \<Rightarrow> Inl e
                 | Inr result' \<Rightarrow>
                     chunkLoop base64 (i + chunkSize) result'
                       (resultOffset + length binaryString)))
      else Inr result)"
  by pat_completeness auto
termination
  by (relation "measure (\<lambda>(base64, i, result, resultOffset). length base64 - i)")
     (auto simp: chunkSize_def)

declare chunkLoop.simps [simp del]

definition base64ToUint8ArrayChunked :: "string \<Rightarrow> ConversionError + Uint8Array" where
  "base64ToUint8ArrayChunked base64 =
     chunkLoop base64 0 (replicate ((length base64 div 4) * 3) 0) 0"

text \<open>The single pass of \<open>base64ToUint8Array\<close>: \<open>atob\<close>, then one byte per character.\<close>

definition singlePass :: "string \<Rightarrow> ConversionError + Uint8Array" where
  "singlePass paddedBase64 =
     (case atob paddedBase64 of
        None \<Rightarrow> Inl InvalidCharacterError
      | Some binaryString \<Rightarrow> Inr (map charCodeAt binaryString))"

definition base64ToUint8Array :: "string \<Rightarrow> ConversionError + Uint8Array" where
  "base64ToUint8Array base64 =
     (let cleanBase64 = filter (\<lambda>c. \<not> isRegexWhitespace c) base64;
          paddedBase64 = padEnd4 cleanBase64
      in case (if length paddedBase64 > 1000000
               then base64ToUint8ArrayChunked paddedBase64
               else singlePass paddedBase64) of
           Inr bytes \<Rightarrow> Inr bytes
         | Inl _ \<Rightarrow>
             (case atob paddedBase64 of
                None \<Rightarrow> Inl AllMethodsFailed
              | Some binaryString \<Rightarrow> Inr (textEncode binaryString)))"

definition isPdfHeader :: "Uint8Array \<Rightarrow> bool" where
  "isPdfHeader bytes =
     (length bytes \<ge> 4 \<and> bytes ! 0 = 0x25 \<and> bytes ! 1 = 0x50 \<and> bytes ! 2 = 0x44 \<and>
      bytes ! 3 = 0x46)"

subsection \<open>Loading a document\<close>

text \<open>\<open>String.prototype.includes\<close> (\<open>includes\<close> is a keyword here).\<close>

fun includesStr :: "string \<Rightarrow> string \<Rightarrow> bool" where
  "includesStr [] sub = (sub = [])"
| "includesStr (c # cs) sub = (take (length sub) (c # cs) = sub \<or> includesStr cs sub)"

record PdfDocument =
  pdf_id :: string
  pdf_title :: string
  pdf_filename :: string
  base64Data :: Uint8Array
  pdf_mimetype :: string

record PdfViewer =
  currentPdf :: "PdfDocument option"
  isViewerOpen :: bool

definition openPdf :: "PdfViewer \<Rightarrow> PdfDocument \<Rightarrow> PdfViewer" where
  "openPdf v doc = v\<lparr> currentPdf := Some doc, isViewerOpen := True \<rparr>"

text \<open>
  What the two \<open>fetch\<close> calls return is an input: \<open>None\<close> when \<open>fetch\<close> itself rejects; the
  JSON body of the view response is \<open>None\<close> when \<open>response.json()\<close> rejects.
\<close>

record ViewData =
  vd_use_download :: bool
  vd_error :: "string option"
  vd_base64 :: "string option"
  vd_file_size :: "nat option"
  vd_mimetype :: "string option"

record ViewResponse =
  vr_ok :: bool
  vr_status :: nat
  vr_statusText :: string
  vr_contentType :: "string option"
  vr_json :: "ViewData option"

record DownloadResponse =
  dr_ok :: bool
  dr_status :: nat
  dr_statusText :: string
  dr_body :: Uint8Array

text \<open>The errors the two paths throw, one constructor for each \<open>throw\<close> of the source.\<close>

datatype LoadError =
    FetchRejected
  | FetchFailed nat string
  | InvalidResponseFormat
  | JsonRejected
  | ServerRejected string
  | MissingBase64
  | FileTooLarge nat
  | InvalidBase64Format
  | ConversionFailed
  | NotValidPdf
  | DownloadFailed nat string
  | DownloadNotValidPdf

text \<open>
  \<open>loadDocumentViaBase64\<close> up to the comment \<open>Verify PDF header\<close>: the checks on the response
  and the conversion; it yields the JSON body and the decoded bytes.
\<close>

definition fetchAndDecode :: "ViewResponse option \<Rightarrow> LoadError + (ViewData \<times> Uint8Array)" where
  "fetchAndDecode fetched =
     (case fetched of
        None \<Rightarrow> Inl FetchRejected
      | Some response \<Rightarrow>
          if \<not> vr_ok response
          then Inl (FetchFailed (vr_status response) (vr_statusText response))
          else if (case vr_contentType response of
                     None \<Rightarrow> True
                   | Some ct \<Rightarrow> ct = [] \<or> \<not> includesStr ct ''application/json'')
          then Inl InvalidResponseFormat
          else (case vr_json response of
                  None \<Rightarrow> Inl JsonRejected
                | Some dat \<Rightarrow>
                    if vd_use_download dat \<or>
                       (case vd_error dat of
                          None \<Rightarrow> False
                        | Some e \<Rightarrow> e \<noteq> [] \<and> includesStr e ''too large'')
                    then Inl (ServerRejected
                                (case vd_error dat of
                                   None \<Rightarrow> ''File too large for base64''
                                 | Some e \<Rightarrow> if e = [] then ''File too large for base64'' else e))
                    else (case vd_base64 dat of
                            None \<Rightarrow> Inl MissingBase64
                          | Some b64 \<Rightarrow>
                              if b64 = [] then Inl MissingBase64
                              else if (case vd_file_size dat of None \<Rightarrow> 0 | Some n \<Rightarrow> n)
                                        > 1024 * 1024
                              then Inl (FileTooLarge
                                          (case vd_file_size dat of None \<Rightarrow> 0 | Some n \<Rightarrow> n))
                              else if \<not> isValidBase64 b64 then Inl InvalidBase64Format
                              else (case base64ToUint8Array b64 of
                                      Inl _ \<Rightarrow> Inl ConversionFailed
                                    | Inr bytes \<Rightarrow> Inr (dat, bytes)))))"

definition documentTitle :: "SearchResult \<Rightarrow> string" where
  "documentTitle sourceData =
     (if doc_title (document sourceData) \<noteq> [] then doc_title (document sourceData)
      else doc_filename (document sourceData))"

definition loadDocumentViaBase64 ::
  "ViewResponse option \<Rightarrow> SearchResult \<Rightarrow> LoadError + PdfDocument" where
  "loadDocumentViaBase64 fetched sourceData =
     (case fetchAndDecode fetched of
        Inl e \<Rightarrow> Inl e
      | Inr (dat, bytes) \<Rightarrow>
          if length bytes < 4 \<or> \<not> isPdfHeader bytes then Inl NotValidPdf
          else Inr \<lparr> pdf_id = doc_id (document sourceData),
                     pdf_title = documentTitle sourceData,
                     pdf_filename = doc_filename (document sourceData),
                     base64Data = bytes,
                     pdf_mimetype = (case vd_mimetype dat of
                                       None \<Rightarrow> ''application/pdf''
                                     | Some m \<Rightarrow> if m = [] then ''application/pdf'' else m) \<rparr>)"

definition loadDocumentViaDownload ::
  "DownloadResponse option \<Rightarrow> SearchResult \<Rightarrow> LoadError + PdfDocument" where
  "loadDocumentViaDownload fetched sourceData =
     (case fetched of
        None \<Rightarrow> Inl FetchRejected
      | Some response \<Rightarrow>
          if \<not> dr_ok response
          then Inl (DownloadFailed (dr_status response) (dr_statusText response))
          else let bytes = dr_body response
               in if length bytes < 4 \<or> \<not> isPdfHeader bytes then Inl DownloadNotValidPdf
                  else Inr \<lparr> pdf_id = doc_id (document sourceData),
                             pdf_title = documentTitle sourceData,
                             pdf_filename = doc_filename (document sourceData),
                             base64Data = bytes,
                             pdf_mimetype = ''application/pdf'' \<rparr>)"

text \<open>
  \<open>loadDocumentForSource\<close>: the base64 path, on any error the download path, on any error
  of that an \<open>alert\<close> with the error. It returns the viewer and the error alerted, if any.
\<close>

definition loadDocumentForSource ::
  "PdfViewer \<Rightarrow> ViewResponse option \<Rightarrow> DownloadResponse option \<Rightarrow> SearchResult
     \<Rightarrow> PdfViewer \<times> LoadError option" where
  "loadDocumentForSource v viewFetched downloadFetched sourceData =
     (case loadDocumentViaBase64 viewFetched sourceData of
        Inr doc \<Rightarrow> (openPdf v doc, None)
      | Inl base64Error \<Rightarrow>
          (case loadDocumentViaDownload downloadFetched sourceData of
             Inr doc \<Rightarrow> (openPdf v doc, None)
           | Inl e \<Rightarrow> (v, Some e)))"

text \<open>The magic sequence \<open>%PDF\<close>.\<close>

definition pdfMagic :: Uint8Array where
  "pdfMagic = [0x25, 0x50, 0x44, 0x46]"

text \<open>Example inputs: a source, a view response with the given base64 text, a download.\<close>

definition exampleSource :: "int option \<Rightarrow> SearchResult" where
  "exampleSource pg =
     \<lparr> paragraph_id = ''p1'', sr_text = ''some paragraph'', score = 1, page = pg,
       section_path = None,
       document = \<lparr> doc_id = ''d1'', doc_title = ''Paper'', doc_filename = ''paper.pdf'',
                     doc_authors = None, doc_year = None \<rparr> \<rparr>"

definition viewResponse :: "string \<Rightarrow> ViewResponse" where
  "viewResponse b64 =
     \<lparr> vr_ok = True, vr_status = 200, vr_statusText = ''OK'',
       vr_contentType = Some ''application/json'',
       vr_json = Some \<lparr> vd_use_download = False, vd_error = None, vd_base64 = Some b64,
                        vd_file_size = Some 8, vd_mimetype = None \<rparr> \<rparr>"

definition downloadResponse :: "Uint8Array \<Rightarrow> DownloadResponse" where
  "downloadResponse bytes =
     \<lparr> dr_ok = True, dr_status = 200, dr_statusText = ''OK'', dr_body = bytes \<rparr>"

definition closedViewer :: PdfViewer where
  "closedViewer = \<lparr> currentPdf = None, isViewerOpen = False \<rparr>"

section \<open>Citation markers (ChatPane.vue)\<close>

text \<open>
  The \<open>Map\<close> from document id to results that \<open>handleDocumentLinkClick\<close> builds, as an
  association list in insertion order: a new id is added at the end with an empty group,
  then the result is pushed onto the group of its id.
\<close>

definition addToGroup ::
  "(string \<times> SearchResult list) list \<Rightarrow> SearchResult \<Rightarrow> (string \<times> SearchResult list) list" where
  "addToGroup documentMap result =
     (let i = doc_id (document result);
          m = (if map_of documentMap i = None then documentMap @ [(i, [])] else documentMap)
      in AList.map_entry i (\<lambda>g. g @ [result]) m)"

definition groupByDocument :: "SearchResult list \<Rightarrow> (string \<times> SearchResult list) list" where
  "groupByDocument results = foldl addToGroup [] results"

text \<open>What a click resolves to: the source to load, and the highlight text and page.\<close>

record ClickResolution =
  cr_sourceData :: SearchResult
  cr_highlightText :: string
  cr_highlightPage :: int

definition handleDocumentLinkClick :: "ChatConversation option \<Rightarrow> int \<Rightarrow> ClickResolution option" where
  "handleDocumentLinkClick conversation docIndex =
     (case conversation of
        None \<Rightarrow> None
      | Some c \<Rightarrow>
          (case find (\<lambda>msg. case searchResults msg of None \<Rightarrow> False | Some rs \<Rightarrow> length rs > 0)
                  (messages c) of
             None \<Rightarrow> None
           | Some currentMessage \<Rightarrow>
               let documentGroups =
                     map snd (groupByDocument
                                (case searchResults currentMessage of None \<Rightarrow> [] | Some rs \<Rightarrow> rs))
               in if docIndex - 1 < 0 \<or> int (length documentGroups) \<le> docIndex - 1 then None
                  else (case documentGroups ! nat (docIndex - 1) of
                          [] \<Rightarrow> None
                        | sourceData # _ \<Rightarrow>
                            Some \<lparr> cr_sourceData = sourceData,
                                   cr_highlightText = sr_text sourceData,
                                   cr_highlightPage =
                                     (case page sourceData of
                                        None \<Rightarrow> 1
                                      | Some p \<Rightarrow> if p = 0 then 1 else p) \<rparr>)))"

subsection \<open>The page the viewer shows (PdfViewer.vue)\<close>

text \<open>
  The viewer keeps \<open>currentPage\<close>, which starts at 1 and is the page it renders. The watcher
  of \<open>pdfData\<close> sets it to 1 when new data arrive. The watcher of \<open>pdf\<close>, which runs when the
  document is loaded, sets it to \<open>highlightPage\<close> if that is truthy and positive, and then
  starts \<open>findAndHighlightText\<close> if the highlight text is not empty; the watcher of the
  highlight properties starts it under the same conditions. \<open>findAndHighlightText\<close> sets
  \<open>currentPage\<close> to its target page, unless reading that page from the document throws
  (\<open>pageRead\<close> is whether the read succeeds).
\<close>

definition pdfDataChanged :: "int \<Rightarrow> int" where
  "pdfDataChanged currentPage = 1"

definition findAndHighlightText :: "bool \<Rightarrow> string \<Rightarrow> int \<Rightarrow> int \<Rightarrow> int" where
  "findAndHighlightText pageRead searchText targetPage currentPage =
     (if searchText = [] then currentPage
      else if pageRead then targetPage else currentPage)"

definition pdfLoaded :: "bool \<Rightarrow> string \<Rightarrow> int \<Rightarrow> int \<Rightarrow> int" where
  "pdfLoaded pageRead highlightText highlightPage currentPage =
     (if highlightPage \<noteq> 0 \<and> highlightPage > 0
      then (if highlightText \<noteq> []
            then findAndHighlightText pageRead highlightText highlightPage highlightPage
            else highlightPage)
      else currentPage)"

definition highlightChanged :: "bool \<Rightarrow> string \<Rightarrow> int \<Rightarrow> int \<Rightarrow> int" where
  "highlightChanged pageRead newText newPage currentPage =
     (if newText \<noteq> [] \<and> newPage \<noteq> 0 \<and> newPage > 0
      then findAndHighlightText pageRead newText newPage currentPage
      else currentPage)"

text \<open>
  The page shown once a document opened with the given highlight text and page is loaded:
  new data, then the two watchers of the loaded document.
\<close>

definition viewerPage :: "bool \<Rightarrow> string \<Rightarrow> int \<Rightarrow> int" where
  "viewerPage pageRead highlightText highlightPage =
     highlightChanged pageRead highlightText highlightPage
       (pdfLoaded pageRead highlightText highlightPage (pdfDataChanged 1))"

subsection \<open>Notions and examples for the markers\<close>

text \<open>The distinct elements of a list in the order of their first occurrence.\<close>

definition firstSeen :: "'a list \<Rightarrow> 'a list" where
  "firstSeen xs = rev (remdups (rev xs))"

text \<open>
  A source of the given document on the given page, an answer with the given search
  results, and a conversation of two answers: the first grounded on document \<open>d1\<close> (page
  3), the second on document \<open>d2\<close> (page 7).
\<close>

definition sourceOf :: "string \<Rightarrow> int option \<Rightarrow> SearchResult" where
  "sourceOf d pg =
     \<lparr> paragraph_id = ''p1'', sr_text = ''some paragraph'', score = 1, page = pg,
       section_path = None,
       document = \<lparr> doc_id = d, doc_title = ''Paper'', doc_filename = ''paper.pdf'',
                     doc_authors = None, doc_year = None \<rparr> \<rparr>"

definition groundedAnswer :: "string \<Rightarrow> SearchResult list \<Rightarrow> nat \<Rightarrow> ChatMessage" where
  "groundedAnswer cnt results now =
     assistantMessage
       \<lparr> rp_content = cnt, rp_html_content = None, rp_timestamp = int now,
         rp_model = None, rp_search_results = Some results,
         rp_formatted_citations = None, rp_citations = None,
         rp_context_used = Some True \<rparr> now"

definition twoAnswers :: ChatConversation where
  "twoAnswers =
     blankConversation
       \<lparr> conv_id := ''chat-1-x'',
         messages :=
           [userMessage ''first question'' 1,
            groundedAnswer ''first answer [1, P. 3]'' [sourceOf ''d1'' (Some 3)] 2,
            userMessage ''second question'' 3,
            groundedAnswer ''second answer [1, P. 7]'' [sourceOf ''d2'' (Some 7)] 4] \<rparr>"

section \<open>BibTeX: the parser (BibParser.ts) and the formatter (papers.tsx)\<close>

text \<open>
  Strings are lists of characters below 256, so the model covers the JavaScript strings
  whose code units are below 256. A JavaScript object with string values is the association
  list of its own properties in the order the language enumerates them (\<open>map_of\<close> reads a
  property). \<open>\\w\<close> is a letter,
  a digit or the underscore; \<open>toLowerCase\<close> is applied to matches of \<open>\\w+\<close> only, where it
  changes the letters \<open>A\<close> to \<open>Z\<close>; \<open>trim\<close> removes the whitespace of \<open>\\s\<close> at both
  ends.
\<close>

type_synonym JsObject = "(string \<times> string) list"

text \<open>
  The assignment \<open>obj[key] = value\<close> on an object made by \<open>{}\<close>. An own property keeps its
  place and gets the value. A new key that is an array index (the decimal numeral, without
  leading zeros, of an integer below \<open>2^32 - 1\<close>) goes among the array indices, which come
  first in ascending order; any other new key goes to the end. The key \<open>__proto__\<close> is the
  accessor of \<open>Object.prototype\<close>: the assignment creates no own property (the callers
  below treat it).
\<close>

definition isDigitChar :: "char \<Rightarrow> bool" where
  "isDigitChar c = (c \<in> set ''0123456789'')"

definition decimalValue :: "string \<Rightarrow> nat" where
  "decimalValue s = foldl (\<lambda>n c. 10 * n + (of_char c - 48)) 0 s"

definition isArrayIndex :: "string \<Rightarrow> bool" where
  "isArrayIndex k =
     (k \<noteq> [] \<and> list_all isDigitChar k \<and> (k = ''0'' \<or> hd k \<noteq> CHR ''0'') \<and>
      decimalValue k < 2 ^ 32 - 1)"

definition setOwn :: "string \<Rightarrow> 'a \<Rightarrow> (string \<times> 'a) list \<Rightarrow> (string \<times> 'a) list" where
  "setOwn k v obj =
     (if isArrayIndex k \<and> map_of obj k = None
      then takeWhile (\<lambda>kv. isArrayIndex (fst kv) \<and> decimalValue (fst kv) < decimalValue k) obj
           @ [(k, v)]
           @ dropWhile (\<lambda>kv. isArrayIndex (fst kv) \<and> decimalValue (fst kv) < decimalValue k) obj
      else AList.update k v obj)"

definition isWordChar :: "char \<Rightarrow> bool" where
  "isWordChar c =
     (c \<in> set ''ABCDEFGHIJKLMNOPQRSTUVWXYZabcdefghijklmnopqrstuvwxyz0123456789_'')"

definition toLowerChar :: "char \<Rightarrow> char" where
  "toLowerChar c =
     (let n = (of_char c :: nat) in if 65 \<le> n \<and> n \<le> 90 then char_of (n + 32) else c)"

definition toLowerCase :: "string \<Rightarrow> string" where
  "toLowerCase s = map toLowerChar s"

definition trim :: "string \<Rightarrow> string" where
  "trim s = rev (dropWhile isRegexWhitespace (rev (dropWhile isRegexWhitespace s)))"

subsection \<open>The two regular expressions\<close>

text \<open>
  \<open>fieldRegex = /(\\w+)\\s*=\\s*{([^}]+)}/\<close> tried at the start of a string: the key is the
  longest run of word characters (a shorter one is followed by a word character, which
  neither \<open>\\s*\<close> nor \<open>=\<close> match), the value the longest run without \<open>}\<close>, which must be
  non-empty and followed by \<open>}\<close>. The result is the key, the value and what follows the
  match.
\<close>

definition matchField :: "string \<Rightarrow> (string \<times> string \<times> string) option" where
  "matchField s =
     (let key = takeWhile isWordChar s
      in if key = [] then None
         else (case dropWhile isRegexWhitespace (dropWhile isWordChar s) of
                 [] \<Rightarrow> None
               | c1 # s1 \<Rightarrow>
                   if c1 \<noteq> CHR ''='' then None
                   else (case dropWhile isRegexWhitespace s1 of
                           [] \<Rightarrow> None
                         | c2 # s2 \<Rightarrow>
                             if c2 \<noteq> CHR ''{'' then None
                             else let v = takeWhile (\<lambda>c. c \<noteq> CHR ''}'') s2
                                  in if v = [] then None
                                     else (case dropWhile (\<lambda>c. c \<noteq> CHR ''}'') s2 of
                                             [] \<Rightarrow> None
                                           | c3 # rest \<Rightarrow> Some (key, v, rest)))))"

text \<open>The index of the last occurrence of a character.\<close>

definition lastIndexOf :: "char \<Rightarrow> string \<Rightarrow> nat option" where
  "lastIndexOf c s =
     (case findIndex (\<lambda>x. x = c) (rev s) of
        None \<Rightarrow> None
      | Some k \<Rightarrow> Some (length s - 1 - k))"

text \<open>
  \<open>entryRegex = /@(\\w+)\\s*{\\s*([^,]+),([^@]+)}/\<close> tried at the start of a string. The
  type is the longest run of word characters. The id runs to the first comma after the
  whitespace that follows the brace; when nothing stands between that whitespace and the
  comma, backtracking gives the last whitespace character to the id. The content is taken
  from the longest run without \<open>@\<close> after the comma and ends before the last \<open>}\<close> of
  that run, and must be non-empty. The result is type, id, content and what follows the
  match.
\<close>

definition matchEntry :: "string \<Rightarrow> (string \<times> string \<times> string \<times> string) option" where
  "matchEntry s =
     (case s of
        [] \<Rightarrow> None
      | c0 # s1 \<Rightarrow>
          if c0 \<noteq> CHR ''@'' then None
          else let ty = takeWhile isWordChar s1
               in if ty = [] then None
                  else (case dropWhile isRegexWhitespace (dropWhile isWordChar s1) of
                          [] \<Rightarrow> None
                        | c1 # s2 \<Rightarrow>
                            if c1 \<noteq> CHR ''{'' then None
                            else let ws = takeWhile isRegexWhitespace s2;
                                     s3 = dropWhile isRegexWhitespace s2;
                                     r = takeWhile (\<lambda>c. c \<noteq> CHR '','') s3
                                 in (case dropWhile (\<lambda>c. c \<noteq> CHR '','') s3 of
                                       [] \<Rightarrow> None
                                     | c2 # s4 \<Rightarrow>
                                         if r = [] \<and> ws = [] then None
                                         else let ident = (if r = [] then [last ws] else r);
                                                  span = takeWhile (\<lambda>c. c \<noteq> CHR ''@'') s4;
                                                  after = dropWhile (\<lambda>c. c \<noteq> CHR ''@'') s4
                                              in (case lastIndexOf CHR ''}'' span of
                                                    None \<Rightarrow> None
                                                  | Some j \<Rightarrow>
                                                      if j = 0 then None
                                                      else Some (ty, ident, take j span,
                                                                 drop (Suc j) span @ after)))))"

text \<open>A match is never empty, so the scanning loops below terminate.\<close>

lemma matchField_shorter:
  "matchField s = Some (key, v, rest) \<Longrightarrow> length rest < length s"
proof -
  assume m: "matchField s = Some (key, v, rest)"
  then obtain c1 s1 c2 s2 c3 where
      a: "dropWhile isRegexWhitespace (dropWhile isWordChar s) = c1 # s1"
    and b: "dropWhile isRegexWhitespace s1 = c2 # s2"
    and c: "dropWhile (\<lambda>c. c \<noteq> CHR ''}'') s2 = c3 # rest"
    by (auto simp: matchField_def Let_def split: if_splits list.splits)
  have "length (c3 # rest) \<le> length s2" using c length_dropWhile_le by metis
  moreover have "length (c2 # s2) \<le> length s1" using b length_dropWhile_le by metis
  moreover have "length (c1 # s1) \<le> length (dropWhile isWordChar s)"
    using a length_dropWhile_le by metis
  moreover have "length (dropWhile isWordChar s) \<le> length s" by (rule length_dropWhile_le)
  ultimately show ?thesis by simp
qed

lemma lastIndexOf_less: "lastIndexOf c s = Some j \<Longrightarrow> j < length s"
  by (cases s) (auto simp: lastIndexOf_def split: option.splits)

lemma matchEntry_shorter:
  "matchEntry s = Some (ty, ident, cnt, rest) \<Longrightarrow> length rest < length s"
proof -
  assume m: "matchEntry s = Some (ty, ident, cnt, rest)"
  then obtain c0 s1 c1 s2 c2 s4 j where
      s: "s = c0 # s1"
    and a: "dropWhile isRegexWhitespace (dropWhile isWordChar s1) = c1 # s2"
    and b: "dropWhile (\<lambda>c. c \<noteq> CHR '','') (dropWhile isRegexWhitespace s2) = c2 # s4"
    and j: "lastIndexOf CHR ''}'' (takeWhile (\<lambda>c. c \<noteq> CHR ''@'') s4) = Some j"
    and r: "rest = drop (Suc j) (takeWhile (\<lambda>c. c \<noteq> CHR ''@'') s4)
                     @ dropWhile (\<lambda>c. c \<noteq> CHR ''@'') s4"
    by (auto simp: matchEntry_def Let_def split: if_splits list.splits option.splits)
  have "length rest \<le> length (takeWhile (\<lambda>c. c \<noteq> CHR ''@'') s4)
                        + length (dropWhile (\<lambda>c. c \<noteq> CHR ''@'') s4)"
    unfolding r by simp
  also have "\<dots> = length s4"
    by (metis length_append takeWhile_dropWhile_id)
  finally have "length rest \<le> length s4" .
  moreover have "length (c2 # s4) \<le> length (dropWhile isRegexWhitespace s2)"
    using b length_dropWhile_le by metis
  moreover have "length (dropWhile isRegexWhitespace s2) \<le> length s2"
    by (rule length_dropWhile_le)
  moreover have "length (c1 # s2) \<le> length (dropWhile isWordChar s1)"
    using a length_dropWhile_le by metis
  moreover have "length (dropWhile isWordChar s1) \<le> length s1" by (rule length_dropWhile_le)
  ultimately show ?thesis using s by simp
qed

subsection \<open>parseBibTeX\<close>

text \<open>
  The inner loop: \<open>fieldRegex.exec(content)\<close> finds the leftmost match from \<open>lastIndex\<close> on
  and moves \<open>lastIndex\<close> behind it; each match assigns
  \<open>fields[key.toLowerCase()] = value.trim()\<close>. For the key \<open>__proto__\<close> the value is a
  string, which the accessor ignores.
\<close>

definition setField :: "string \<Rightarrow> string \<Rightarrow> JsObject \<Rightarrow> JsObject" where
  "setField k v acc = (if k = ''__proto__'' then acc else setOwn k v acc)"

function scanFields :: "string \<Rightarrow> JsObject \<Rightarrow> JsObject" where
  "scanFields [] acc = acc"
| "scanFields (c # cs) acc =
     (case matchField (c # cs) of
        None \<Rightarrow> scanFields cs acc
      | Some (key, v, rest) \<Rightarrow> scanFields rest (setField (toLowerCase key) (trim v) acc))"
  by pat_completeness auto
termination
  by (relation "measure (\<lambda>(s, acc). length s)") (auto dest: matchField_shorter)

declare scanFields.simps(2) [simp del]

text \<open>
  The object \<open>entries\<close>: its own properties, and the entry that an assignment to
  \<open>__proto__\<close> made its prototype, if any (there the value is an object, which the accessor
  installs as the prototype; no own property is created).
\<close>

record BibEntries =
  be_own :: "(string \<times> JsObject) list"
  be_proto :: "JsObject option"

definition setEntry :: "string \<Rightarrow> JsObject \<Rightarrow> BibEntries \<Rightarrow> BibEntries" where
  "setEntry ident entry entries =
     (if ident = ''__proto__'' then entries\<lparr> be_proto := Some entry \<rparr>
      else entries\<lparr> be_own := setOwn ident entry (be_own entries) \<rparr>)"

text \<open>
  The object literal \<open>{...fields, id, type: type.toLowerCase()}\<close>: the own properties of
  \<open>fields\<close> in their order, then \<open>id\<close> and \<open>type\<close>, each at the place of a field of that
  name if there is one, else at the end (neither name is an array index).
\<close>

definition entryObject :: "JsObject \<Rightarrow> string \<Rightarrow> string \<Rightarrow> JsObject" where
  "entryObject fs ident ty = AList.update ''type'' (toLowerCase ty) (AList.update ''id'' ident fs)"

text \<open>
  The outer loop, with \<open>entries[id] = {...fields, id, type: type.toLowerCase()}\<close> for each
  match of \<open>entryRegex\<close>.
\<close>

function scanEntries :: "string \<Rightarrow> BibEntries \<Rightarrow> BibEntries" where
  "scanEntries [] entries = entries"
| "scanEntries (c # cs) entries =
     (case matchEntry (c # cs) of
        None \<Rightarrow> scanEntries cs entries
      | Some (ty, ident, cnt, rest) \<Rightarrow>
          scanEntries rest (setEntry ident (entryObject (scanFields cnt []) ident ty) entries))"
  by pat_completeness auto
termination
  by (relation "measure (\<lambda>(s, entries). length s)") (auto dest: matchEntry_shorter)

declare scanEntries.simps(2) [simp del]

definition parseBibTeX :: "string \<Rightarrow> BibEntries" where
  "parseBibTeX bibtex = scanEntries bibtex \<lparr> be_own = [], be_proto = None \<rparr>"

subsection \<open>generateBibTeX\<close>

text \<open>\<open>authors.split(', ')\<close> (the pieces between the separators) and \<open>join(' and ')\<close>.\<close>

fun splitCommaSpace :: "string \<Rightarrow> string \<Rightarrow> string list" where
  "splitCommaSpace cur [] = [rev cur]"
| "splitCommaSpace cur (c # cs) =
     (if c = CHR '','' \<and> take 1 cs = '' '' then rev cur # splitCommaSpace [] (drop 1 cs)
      else splitCommaSpace (c # cur) cs)"

fun joinAnd :: "string list \<Rightarrow> string" where
  "joinAnd [] = []"
| "joinAnd [x] = x"
| "joinAnd (x # y # ys) = x @ '' and '' @ joinAnd (y # ys)"

text \<open>A template literal renders an absent property as \<open>undefined\<close>.\<close>

definition rendered :: "string option \<Rightarrow> string" where
  "rendered v = (case v of None \<Rightarrow> ''undefined'' | Some x \<Rightarrow> x)"

definition truthy :: "string option \<Rightarrow> bool" where
  "truthy v = (case v of None \<Rightarrow> False | Some x \<Rightarrow> x \<noteq> [])"

text \<open>One line of the output: two spaces, \<open>key = {value},\<close> and a newline.\<close>

definition bibField :: "string \<Rightarrow> string \<Rightarrow> string" where
  "bibField key v = ''  '' @ key @ '' = {'' @ v @ ''},\<newline>''"

datatype JsTypeError = TypeError

text \<open>
  \<open>generateBibTeX(paper)\<close> on any object: \<open>paper.authors.split\<close> throws when \<open>authors\<close> is
  absent.
\<close>

definition generateBibTeX :: "JsObject \<Rightarrow> JsTypeError + string" where
  "generateBibTeX paper =
     (case map_of paper ''authors'' of
        None \<Rightarrow> Inl TypeError
      | Some authors \<Rightarrow>
          let authorList = joinAnd (splitCommaSpace [] authors);
              entry = (if truthy (map_of paper ''journal'') then ''article'' else ''misc'')
          in Inr (''@'' @ entry @ ''{'' @ rendered (map_of paper ''id'') @ '',\<newline>''
                  @ bibField ''author'' authorList
                  @ bibField ''title'' (rendered (map_of paper ''title''))
                  @ bibField ''year'' (rendered (map_of paper ''year''))
                  @ (if truthy (map_of paper ''journal'')
                     then bibField ''journal'' (rendered (map_of paper ''journal'')) else [])
                  @ (if truthy (map_of paper ''doi'')
                     then bibField ''doi'' (rendered (map_of paper ''doi'')) else [])
                  @ (if truthy (map_of paper ''arxiv'')
                     then bibField ''eprint'' (rendered (map_of paper ''arxiv''))
                          @ bibField ''archivePrefix'' ''arXiv''
                     else [])
                  @ (if truthy (map_of paper ''url'')
                     then bibField ''url'' (rendered (map_of paper ''url'')) else [])
                  @ ''}''))"

text \<open>
  The fields the formatter emits, in its fixed order (author, title, year, journal, doi,
  eprint with archivePrefix, url), and the entry type.
\<close>

definition emittedFields :: "JsObject \<Rightarrow> (string \<times> string) list" where
  "emittedFields paper =
     [(''author'', joinAnd (splitCommaSpace [] (rendered (map_of paper ''authors'')))),
      (''title'', rendered (map_of paper ''title'')),
      (''year'', rendered (map_of paper ''year''))]
     @ (if truthy (map_of paper ''journal'')
        then [(''journal'', rendered (map_of paper ''journal''))] else [])
     @ (if truthy (map_of paper ''doi'') then [(''doi'', rendered (map_of paper ''doi''))] else [])
     @ (if truthy (map_of paper ''arxiv'')
        then [(''eprint'', rendered (map_of paper ''arxiv'')), (''archivePrefix'', ''arXiv'')]
        else [])
     @ (if truthy (map_of paper ''url'') then [(''url'', rendered (map_of paper ''url''))] else [])"

definition entryType :: "JsObject \<Rightarrow> string" where
  "entryType paper = (if truthy (map_of paper ''journal'') then ''article'' else ''misc'')"

text \<open>
  A paper is printable when it has authors, its id is not empty, is not \<open>__proto__\<close>, has
  no comma and does not start with whitespace, and every emitted value is not empty and has
  no \<open>}\<close> and no \<open>@\<close>.
\<close>

definition printable :: "JsObject \<Rightarrow> bool" where
  "printable paper =
     (map_of paper ''authors'' \<noteq> None \<and>
      rendered (map_of paper ''id'') \<noteq> [] \<and>
      rendered (map_of paper ''id'') \<noteq> ''__proto__'' \<and>
      CHR '','' \<notin> set (rendered (map_of paper ''id'')) \<and>
      \<not> isRegexWhitespace (hd (rendered (map_of paper ''id''))) \<and>
      list_all (\<lambda>(k, v). v \<noteq> [] \<and> CHR ''}'' \<notin> set v \<and> CHR ''@'' \<notin> set v)
        (emittedFields paper))"

text \<open>
  A line \<open>key = {value}\<close> that the field expression reads back: the key is a non-empty
  word, the value is not empty and has no \<open>}\<close> and no \<open>@\<close>.
\<close>

definition lineOk :: "string \<times> string \<Rightarrow> bool" where
  "lineOk kv =
     (fst kv \<noteq> [] \<and> list_all isWordChar (fst kv) \<and> snd kv \<noteq> [] \<and>
      CHR ''}'' \<notin> set (snd kv) \<and> CHR ''@'' \<notin> set (snd kv))"

text \<open>Example records and papers.\<close>

definition authorRecord :: string where
  "authorRecord = ''@misc{k1,\<newline>  author = {A. Author and B. Author},\<newline>  title = {T},\<newline>  year = {2020},\<newline>}''"

definition volumeRecord :: string where
  "volumeRecord = ''@article{k2, authors = {A. Author, B. Author}, title = {T}, year = {2020}, journal = {J}, volume = {12}}''"

definition examplePaper :: JsObject where
  "examplePaper =
     [(''id'', ''p1''), (''title'', ''Attention''), (''authors'', ''A. Vaswani, N. Shazeer''),
      (''year'', ''2017''), (''abstract'', ''We propose''), (''arxiv'', ''1706.03762''),
      (''url'', ''https://arxiv.org/abs/1706.03762'')]"

section \<open>Basic facts\<close>

lemma save_fields [simp]:
  "heap (saveToLocalStorage s) = heap s"
  "nextAddr (saveToLocalStorage s) = nextAddr s"
  "conversations (saveToLocalStorage s) = conversations s"
  "currentConversationId (saveToLocalStorage s) = currentConversationId s"
  "selectedModelId (saveToLocalStorage s) = selectedModelId s"
  "isLoading (saveToLocalStorage s) = isLoading s"
  "error (saveToLocalStorage s) = error s"
  "storeChatMode (saveToLocalStorage s) = storeChatMode s"
  "selectedDomains (saveToLocalStorage s) = selectedDomains s"
  "activeRequests (saveToLocalStorage s) = activeRequests s"
  "requestQueue (saveToLocalStorage s) = requestQueue s"
  "aborted (saveToLocalStorage s) = aborted s"
  "nextController (saveToLocalStorage s) = nextController s"
  by (simp_all add: saveToLocalStorage_def Let_def)

lemma conversationList_save [simp]: "conversationList (saveToLocalStorage s) = conversationList s"
  by (simp add: conversationList_def)

lemma findIndex_None: "findIndex P xs = None \<longleftrightarrow> (\<forall>x \<in> set xs. \<not> P x)"
  by (induction xs) (auto split: option.splits)

lemma findIndex_Some:
  "findIndex P xs = Some k \<Longrightarrow> k < length xs \<and> P (xs ! k) \<and> (\<forall>j < k. \<not> P (xs ! j))"
proof (induction xs arbitrary: k)
  case Nil
  then show ?case by simp
next
  case (Cons x xs)
  show ?case
  proof (cases "P x")
    case True
    with Cons.prems show ?thesis by simp
  next
    case False
    with Cons.prems obtain j where j: "findIndex P xs = Some j" "k = Suc j"
      by (cases "findIndex P xs") auto
    from Cons.IH [OF j(1)] False j(2) show ?thesis
      by (auto simp: less_Suc_eq_0_disj)
  qed
qed

section \<open>Temporary conversations (createNewConversation)\<close>

lemma map_heap_upd_fresh:
  "list_all (\<lambda>a. a < (n::nat)) as \<Longrightarrow> map (h(n := c)) as = map h as"
  by (induction as) simp_all

lemma conversationList_create_temp:
  "heapAllocated s \<Longrightarrow>
   conversationList (createNewConversation s ttl True now rnd) =
     filter (\<lambda>c. \<not> isTemporary c \<or> length (messages c) > 0
                 \<or> Some (conv_id c) = currentConversationId s) (conversationList s)
     @ [newConversation s ttl True now rnd]"
  by (simp add: createNewConversation_def conversationList_def Let_def heapAllocated_def
      map_heap_upd_fresh list_all_iff filter_map comp_def)

lemma heapAllocated_create:
  "heapAllocated s \<Longrightarrow> heapAllocated (createNewConversation s ttl temp now rnd)"
  by (auto simp add: createNewConversation_def Let_def heapAllocated_def list_all_iff)

lemma current_create:
  "currentConversationId (createNewConversation s ttl temp now rnd) = Some (conversationId now rnd)"
  by (simp add: createNewConversation_def Let_def newConversation_def)

lemma newConversation_create:
  "newConversation (createNewConversation s ttl temp now rnd) ttl' temp' now' rnd' =
   newConversation s ttl' temp' now' rnd'"
  by (simp add: createNewConversation_def Let_def newConversation_def)

text \<open>
  C3, as the code has it. Creating a temporary conversation prunes the empty temporary
  conversations except the current one. So of two temporary conversations created one
  right after the other, the first is current when the second is created and survives: the
  store then holds exactly two empty temporary conversations, the first and the second
  (given that the first id was fresh).
\<close>

theorem createNewConversation_twice_temporary:
  assumes alloc: "heapAllocated s"
    and fresh: "conversationId t1 r1 \<notin> conv_id ` set (conversationList s)"
  shows "filter emptyTemporary
           (conversationList
              (createNewConversation (createNewConversation s ttl1 True t1 r1) ttl2 True t2 r2))
         = [newConversation s ttl1 True t1 r1, newConversation s ttl2 True t2 r2]"
proof -
  let ?s1 = "createNewConversation s ttl1 True t1 r1"
  have a1: "heapAllocated ?s1" using alloc by (rule heapAllocated_create)
  have none: "\<forall>c \<in> set (conversationList s). conv_id c \<noteq> conversationId t1 r1"
    using fresh by force
  have et: "emptyTemporary (newConversation s ttl1 True t1 r1)"
       "emptyTemporary (newConversation s ttl2 True t2 r2)"
       "conv_id (newConversation s ttl1 True t1 r1) = conversationId t1 r1"
    by (simp_all add: emptyTemporary_def newConversation_def)
  have old: "filter emptyTemporary (filter (\<lambda>c. \<not> isTemporary c \<or> length (messages c) > 0
                     \<or> Some (conv_id c) = Some (conversationId t1 r1))
               (filter (\<lambda>c. \<not> isTemporary c \<or> length (messages c) > 0
                     \<or> Some (conv_id c) = currentConversationId s) (conversationList s))) = []"
    using none by (auto simp: filter_empty_conv emptyTemporary_def)
  show ?thesis
    unfolding conversationList_create_temp [OF a1] conversationList_create_temp [OF alloc]
        current_create newConversation_create filter_append old
    using et by simp
qed

theorem createNewConversation_twice_temporary_witness:
  "filter emptyTemporary
     (conversationList
        (createNewConversation (createNewConversation initialStore None True 1 ''a'')
           None True 2 ''b''))
   = [newConversation initialStore None True 1 ''a'', newConversation initialStore None True 2 ''b'']"
proof -
  have a: "heapAllocated initialStore"
    by (simp add: heapAllocated_def initialStore_def)
  have f: "conversationId 1 ''a'' \<notin> conv_id ` set (conversationList initialStore)"
    by (simp add: conversationList_def initialStore_def)
  show ?thesis
    using createNewConversation_twice_temporary [OF a f] .
qed

theorem createNewConversation_twice_counterexample:
  "length (filter isTemporary
     (conversationList
        (createNewConversation (createNewConversation initialStore None True 1 ''a'')
           None True 2 ''b''))) \<noteq> 1"
  by (simp add: createNewConversation_def newConversation_def conversationList_def Let_def
      initialStore_def)

section \<open>Deleting a conversation\<close>

lemma splice1_findIndex_filter:
  "findIndex P xs = Some k \<Longrightarrow> distinct (map f xs) \<Longrightarrow> (\<And>x. P x \<longleftrightarrow> f x = i) \<Longrightarrow>
   splice1 k xs = filter (\<lambda>x. f x \<noteq> i) xs"
proof (induction xs arbitrary: k)
  case Nil
  then show ?case by simp
next
  case (Cons x xs)
  show ?case
  proof (cases "P x")
    case True
    then have k: "k = 0" using Cons.prems(1) by simp
    have "\<forall>y \<in> set xs. f y \<noteq> i" using Cons.prems(2,3) True by force
    then have "filter (\<lambda>x. f x \<noteq> i) xs = xs" by (simp add: filter_id_conv)
    with True Cons.prems(3) k show ?thesis by (simp add: splice1_def)
  next
    case False
    with Cons.prems(1) obtain j where j: "findIndex P xs = Some j" "k = Suc j"
      by (cases "findIndex P xs") auto
    have "splice1 j xs = filter (\<lambda>x. f x \<noteq> i) xs"
      using Cons.IH [OF j(1)] Cons.prems(2,3) by simp
    with False Cons.prems(3) j(2) show ?thesis by (simp add: splice1_def)
  qed
qed

text \<open>
  C7, as the code has it. With distinct conversation ids, \<open>deleteConversation(id)\<close> leaves
  the other conversations in their order, and if the deleted conversation was the current
  one, the current conversation becomes the first remaining conversation of the array (the
  one inserted first), or none if none remains; otherwise the current id is unchanged.
\<close>

theorem deleteConversation_first_remaining:
  assumes dist: "distinct (map conv_id (conversationList s))"
  shows "conversationList (deleteConversation s i)
           = filter (\<lambda>c. conv_id c \<noteq> i) (conversationList s) \<and>
         currentConversationId (deleteConversation s i) =
           (if currentConversationId s = Some i \<and> i \<in> conv_id ` set (conversationList s)
            then (case filter (\<lambda>c. conv_id c \<noteq> i) (conversationList s) of
                    [] \<Rightarrow> None | c # _ \<Rightarrow> Some (conv_id c))
            else currentConversationId s)"
proof -
  let ?P = "\<lambda>a. conv_id (heap s a) = i"
  have d: "distinct (map (\<lambda>a. conv_id (heap s a)) (conversations s))"
    using dist by (simp add: conversationList_def comp_def)
  show ?thesis
  proof (cases "findIndex ?P (conversations s)")
    case None
    then have no: "\<forall>a \<in> set (conversations s). conv_id (heap s a) \<noteq> i"
      by (simp add: findIndex_None)
    then have "filter (\<lambda>c. conv_id c \<noteq> i) (conversationList s) = conversationList s"
      by (simp add: filter_id_conv conversationList_def)
    moreover from no have "i \<notin> conv_id ` set (conversationList s)"
      by (auto simp: conversationList_def)
    ultimately show ?thesis using None by (simp add: deleteConversation_def)
  next
    case (Some k)
    have sp: "splice1 k (conversations s)
                = filter (\<lambda>a. conv_id (heap s a) \<noteq> i) (conversations s)"
      by (rule splice1_findIndex_filter [OF Some d]) simp
    from findIndex_Some [OF Some] have "i \<in> conv_id ` set (conversationList s)"
      by (force simp: conversationList_def)
    with Some sp show ?thesis
      by (simp add: deleteConversation_def Let_def conversationList_def filter_map comp_def
          split: list.splits)
  qed
qed

theorem deleteConversation_first_remaining_witness:
  "conversationList (deleteConversation threeConversations ''a'')
     = filter (\<lambda>c. conv_id c \<noteq> ''a'') (conversationList threeConversations) \<and>
   currentConversationId (deleteConversation threeConversations ''a'') = Some ''b''"
proof -
  have d: "distinct (map conv_id (conversationList threeConversations))"
    by (simp add: conversationList_def threeConversations_def exampleConversation_def)
  show ?thesis
    using deleteConversation_first_remaining [OF d, of "''a''"]
    by (simp add: conversationList_def threeConversations_def exampleConversation_def
        initialStore_def)
qed

theorem deleteConversation_most_recent_counterexample:
  "currentConversationId (deleteConversation threeConversations ''a'') = Some ''b'' \<and>
   map conv_id (sortedConversations (deleteConversation threeConversations ''a''))
     = [''c'', ''b'']"
  by (simp add: deleteConversation_def threeConversations_def initialStore_def
      exampleConversation_def blankConversation_def splice1_def sortedConversations_def
      conversationList_def saveToLocalStorage_def Let_def)

section \<open>sendMessage: what each part changes\<close>

lemma modConv_fields [simp]:
  "heap (modConv a f s) = (heap s)(a := f (heap s a))"
  "nextAddr (modConv a f s) = nextAddr s"
  "conversations (modConv a f s) = conversations s"
  "currentConversationId (modConv a f s) = currentConversationId s"
  "selectedModelId (modConv a f s) = selectedModelId s"
  "isLoading (modConv a f s) = isLoading s"
  "error (modConv a f s) = error s"
  "storeChatMode (modConv a f s) = storeChatMode s"
  "selectedDomains (modConv a f s) = selectedDomains s"
  "activeRequests (modConv a f s) = activeRequests s"
  "requestQueue (modConv a f s) = requestQueue s"
  "aborted (modConv a f s) = aborted s"
  "nextController (modConv a f s) = nextController s"
  "localStorage (modConv a f s) = localStorage s"
  by (simp_all add: modConv_def)

lemma removePlaceholder_fields [simp]:
  "nextAddr (removePlaceholder a i s) = nextAddr s"
  "conversations (removePlaceholder a i s) = conversations s"
  "currentConversationId (removePlaceholder a i s) = currentConversationId s"
  "selectedModelId (removePlaceholder a i s) = selectedModelId s"
  "isLoading (removePlaceholder a i s) = isLoading s"
  "error (removePlaceholder a i s) = error s"
  "storeChatMode (removePlaceholder a i s) = storeChatMode s"
  "selectedDomains (removePlaceholder a i s) = selectedDomains s"
  "activeRequests (removePlaceholder a i s) = activeRequests s"
  "requestQueue (removePlaceholder a i s) = requestQueue s"
  "aborted (removePlaceholder a i s) = aborted s"
  "nextController (removePlaceholder a i s) = nextController s"
  "localStorage (removePlaceholder a i s) = localStorage s"
  by (simp_all add: removePlaceholder_def split: option.splits)

lemma finally_fields [simp]:
  "heap (sendMessage_finally p s) = heap s"
  "nextAddr (sendMessage_finally p s) = nextAddr s"
  "conversations (sendMessage_finally p s) = conversations s"
  "currentConversationId (sendMessage_finally p s) = currentConversationId s"
  "selectedModelId (sendMessage_finally p s) = selectedModelId s"
  "isLoading (sendMessage_finally p s) = False"
  "error (sendMessage_finally p s) = error s"
  "storeChatMode (sendMessage_finally p s) = storeChatMode s"
  "selectedDomains (sendMessage_finally p s) = selectedDomains s"
  "activeRequests (sendMessage_finally p s) = activeRequests s - {p_requestId p}"
  "aborted (sendMessage_finally p s) = aborted s"
  "nextController (sendMessage_finally p s) = nextController s"
  by (simp_all add: sendMessage_finally_def Let_def)

lemma error_catch:
  "error (sendMessage_catch p e s) = (if isCancellation e then error s else Some (errorText e))"
  by (simp add: sendMessage_catch_def Let_def)

lemma error_resume_rejected:
  "error (sendMessage_resume s p (Rejected e) now) =
     (if isCancellation e then error s else Some (errorText e))"
  by (simp add: sendMessage_resume_def error_catch)

lemma start_Some:
  assumes "sendMessage_start s cnt now rndC rndR = (s1, Some p)"
  shows "req_timeout (p_request p) = 120000" "error s1 = None" "isLoading s1"
    "p_placeholderId p = placeholderMessageId now"
    "p_requestId p = requestIdOf now rndR"
  using assms
  by (auto simp add: sendMessage_start_def Let_def chatRequest_def addPlaceholder_def
      split: option.splits)

lemmas eval_defs = sendMessage_start_def ensureConversation_def cancelExistingRequest_def
  registerRequest_def addUserMessage_def firstMessageUpdate_def addPlaceholder_def
  chatRequest_def createNewConversation_def newConversation_def
  currentConversation_def saveToLocalStorage_def conversationList_def modConv_def
  userMessage_def placeholderMessage_def assistantMessage_def
  conversationId_def requestIdOf_def userMessageId_def placeholderMessageId_def
  assistantMessageId_def showNat.simps digitChar_def initialStore_def initialSystem_def
  blankConversation_def sendMessage_resume_def sendMessage_catch_def sendMessage_finally_def
  removePlaceholder_def isCancellation_def errorText_def splice1_def run_def Let_def

section \<open>Timeout and cancellation\<close>

text \<open>
  C4. Every request \<open>sendMessage\<close> issues carries the timeout of 120000 ms, as the claim
  says. The \<open>catch\<close> block takes a rejection for a cancellation when it is named
  \<open>AbortError\<close> or has the code \<open>ECONNABORTED\<close>: then the error slot stays as the send
  cleared it. Every other rejection sets the error slot, to \<open>e.response.data.error\<close>, else
  \<open>e.message\<close>, else a fixed text. \<open>ECONNABORTED\<close> is the code of a request that ran into
  its timeout, so the timeout is not surfaced, where the claim has it surfaced and only the
  cancellation swallowed.
\<close>

theorem sendMessage_timeout_swallowed:
  assumes "sendMessage_start s cnt now rndC rndR = (s1, Some p)"
  shows "req_timeout (p_request p) = 120000 \<and>
         error (sendMessage_resume s1 p (Rejected e) now') =
           (if err_name e = ''AbortError'' \<or> err_code e = Some ''ECONNABORTED''
            then None else Some (errorText e))"
  using start_Some(1,2) [OF assms] by (simp add: error_resume_rejected isCancellation_def)

theorem sendMessage_timeout_swallowed_witness:
  "error (sendMessage_resume
            (fst (sendMessage_start initialStore ''hi'' 1 ''x'' ''r1''))
            (the (snd (sendMessage_start initialStore ''hi'' 1 ''x'' ''r1'')))
            (Rejected timeoutError) 2) = None \<and>
   error (sendMessage_resume
            (fst (sendMessage_start initialStore ''hi'' 1 ''x'' ''r1''))
            (the (snd (sendMessage_start initialStore ''hi'' 1 ''x'' ''r1'')))
            (Rejected abortError) 2) = None \<and>
   error (sendMessage_resume
            (fst (sendMessage_start initialStore ''hi'' 1 ''x'' ''r1''))
            (the (snd (sendMessage_start initialStore ''hi'' 1 ''x'' ''r1'')))
            (Rejected networkError) 2) = Some ''Network Error'' \<and>
   error (sendMessage_resume
            (fst (sendMessage_start initialStore ''hi'' 1 ''x'' ''r1''))
            (the (snd (sendMessage_start initialStore ''hi'' 1 ''x'' ''r1'')))
            (Rejected canceledError) 2) = Some ''canceled''"
proof -
  obtain s1 p where sp: "sendMessage_start initialStore ''hi'' 1 ''x'' ''r1'' = (s1, Some p)"
    by (simp add: eval_defs)
  show ?thesis
    unfolding sp fst_conv snd_conv option.sel
    using sendMessage_timeout_swallowed [OF sp, of timeoutError 2]
      sendMessage_timeout_swallowed [OF sp, of abortError 2]
      sendMessage_timeout_swallowed [OF sp, of networkError 2]
      sendMessage_timeout_swallowed [OF sp, of canceledError 2]
    by (simp add: timeoutError_def networkError_def abortError_def canceledError_def
        errorText_def)
qed

text \<open>
  The same in a run of the store: one send, whose request then runs into its timeout. The
  error slot is empty afterwards.
\<close>

lemma timeout_run_error_empty:
  "error (store (run initialSystem
            [Send ''hi'' 1 ''x'' ''r1'', Settle 0 (Rejected timeoutError) 2])) = None"
  by (simp add: eval_defs timeoutError_def)

section \<open>Messages of the conversation objects\<close>

lemma isPlaceholderId_placeholder [simp]: "isPlaceholderId (placeholderMessageId now)"
  by (simp add: isPlaceholderId_def placeholderMessageId_def)

lemma not_isPlaceholderId_user [simp]: "\<not> isPlaceholderId (userMessageId now)"
  by (simp add: isPlaceholderId_def userMessageId_def)

lemma not_isPlaceholderId_assistant [simp]: "\<not> isPlaceholderId (assistantMessageId now)"
  by (simp add: isPlaceholderId_def assistantMessageId_def)

lemma removeFirstId_findIndex:
  "(case findIndex (\<lambda>m. msg_id m = i) xs of None \<Rightarrow> xs | Some k \<Rightarrow> splice1 k xs)
     = removeFirstId i xs"
  by (induction xs) (auto simp: splice1_def split: option.splits)

lemma messages_removePlaceholder:
  "messages (heap (removePlaceholder a i s) b) =
     (if b = a then removeFirstId i (messages (heap s a)) else messages (heap s b))"
  using removeFirstId_findIndex [of "messages (heap s a)" i]
  by (auto simp: removePlaceholder_def split: option.splits)

lemma messages_catch:
  "messages (heap (sendMessage_catch p e s) b) =
     (if b = p_conversation p then removeFirstId (p_placeholderId p) (messages (heap s b))
      else messages (heap s b))"
  by (simp add: sendMessage_catch_def Let_def messages_removePlaceholder)

lemma messages_resume:
  "messages (heap (sendMessage_resume s p out now) b) =
     (if b \<noteq> p_conversation p then messages (heap s b)
      else case out of
             Rejected e \<Rightarrow> removeFirstId (p_placeholderId p) (messages (heap s b))
           | Resolved d \<Rightarrow>
               if p_requestId p \<notin> activeRequests s then messages (heap s b)
               else if rd_success d
               then (case rd_response d of
                       None \<Rightarrow> removeFirstId (p_placeholderId p)
                                 (removeFirstId (p_placeholderId p) (messages (heap s b)))
                     | Some r \<Rightarrow> removeFirstId (p_placeholderId p) (messages (heap s b))
                                 @ [assistantMessage r now])
               else removeFirstId (p_placeholderId p) (messages (heap s b)))"
  by (simp add: sendMessage_resume_def messages_catch messages_removePlaceholder Let_def
      split: ApiOutcome.splits option.splits)


lemma cancelExisting_fields [simp]:
  "heap (cancelExistingRequest cid s) = heap s"
  "nextAddr (cancelExistingRequest cid s) = nextAddr s"
  "conversations (cancelExistingRequest cid s) = conversations s"
  "currentConversationId (cancelExistingRequest cid s) = currentConversationId s"
  "activeRequests (cancelExistingRequest cid s) = activeRequests s"
  "nextController (cancelExistingRequest cid s) = nextController s"
  "error (cancelExistingRequest cid s) = error s"
  by (simp_all add: cancelExistingRequest_def split: option.splits)

lemma registerRequest_fields [simp]:
  "heap (registerRequest cid r s) = heap s"
  "nextAddr (registerRequest cid r s) = nextAddr s"
  "conversations (registerRequest cid r s) = conversations s"
  "currentConversationId (registerRequest cid r s) = currentConversationId s"
  "activeRequests (registerRequest cid r s) = insert r (activeRequests s)"
  "nextController (registerRequest cid r s) = Suc (nextController s)"
  "aborted (registerRequest cid r s) = aborted s"
  "requestQueue (registerRequest cid r s) = AList.update cid (nextController s) (requestQueue s)"
  by (simp_all add: registerRequest_def)

lemma addUserMessage_fields [simp]:
  "nextAddr (addUserMessage a cnt now s) = nextAddr s"
  "conversations (addUserMessage a cnt now s) = conversations s"
  "currentConversationId (addUserMessage a cnt now s) = currentConversationId s"
  "activeRequests (addUserMessage a cnt now s) = activeRequests s"
  "requestQueue (addUserMessage a cnt now s) = requestQueue s"
  "aborted (addUserMessage a cnt now s) = aborted s"
  "nextController (addUserMessage a cnt now s) = nextController s"
  "messages (heap (addUserMessage a cnt now s) b) =
     (if b = a then messages (heap s b) @ [userMessage cnt now] else messages (heap s b))"
  "conv_id (heap (addUserMessage a cnt now s) b) = conv_id (heap s b)"
  by (simp_all add: addUserMessage_def)

lemma firstMessageUpdate_fields [simp]:
  "nextAddr (firstMessageUpdate a cnt s) = nextAddr s"
  "conversations (firstMessageUpdate a cnt s) = conversations s"
  "currentConversationId (firstMessageUpdate a cnt s) = currentConversationId s"
  "activeRequests (firstMessageUpdate a cnt s) = activeRequests s"
  "requestQueue (firstMessageUpdate a cnt s) = requestQueue s"
  "aborted (firstMessageUpdate a cnt s) = aborted s"
  "nextController (firstMessageUpdate a cnt s) = nextController s"
  "messages (heap (firstMessageUpdate a cnt s) b) = messages (heap s b)"
  "conv_id (heap (firstMessageUpdate a cnt s) b) = conv_id (heap s b)"
  by (simp_all add: firstMessageUpdate_def Let_def)

lemma addPlaceholder_fields [simp]:
  "nextAddr (addPlaceholder a now s) = nextAddr s"
  "conversations (addPlaceholder a now s) = conversations s"
  "currentConversationId (addPlaceholder a now s) = currentConversationId s"
  "activeRequests (addPlaceholder a now s) = activeRequests s"
  "requestQueue (addPlaceholder a now s) = requestQueue s"
  "aborted (addPlaceholder a now s) = aborted s"
  "nextController (addPlaceholder a now s) = nextController s"
  "error (addPlaceholder a now s) = None"
  "isLoading (addPlaceholder a now s) = True"
  "messages (heap (addPlaceholder a now s) b) =
     (if b = a then messages (heap s b) @ [placeholderMessage now] else messages (heap s b))"
  "conv_id (heap (addPlaceholder a now s) b) = conv_id (heap s b)"
  by (simp_all add: addPlaceholder_def)

lemma create_fields [simp]:
  "heap (createNewConversation s ttl temp now rnd)
     = (heap s)(nextAddr s := newConversation s ttl temp now rnd)"
  "nextAddr (createNewConversation s ttl temp now rnd) = Suc (nextAddr s)"
  "activeRequests (createNewConversation s ttl temp now rnd) = activeRequests s"
  "requestQueue (createNewConversation s ttl temp now rnd) = requestQueue s"
  "aborted (createNewConversation s ttl temp now rnd) = aborted s"
  "nextController (createNewConversation s ttl temp now rnd) = nextController s"
  by (simp_all add: createNewConversation_def Let_def)

lemma select_fields [simp]:
  "heap (selectConversation s i) = heap s"
  "nextAddr (selectConversation s i) = nextAddr s"
  "conversations (selectConversation s i) = conversations s"
  by (simp_all add: selectConversation_def Let_def split: option.splits)

lemma delete_fields [simp]:
  "heap (deleteConversation s i) = heap s"
  "nextAddr (deleteConversation s i) = nextAddr s"
  by (simp_all add: deleteConversation_def Let_def split: option.splits)

lemma cancel_fields [simp]:
  "heap (cancelActiveRequests s) = heap s"
  "nextAddr (cancelActiveRequests s) = nextAddr s"
  "conversations (cancelActiveRequests s) = conversations s"
  by (simp_all add: cancelActiveRequests_def)

lemma resume_fields [simp]:
  "nextAddr (sendMessage_resume s p out now) = nextAddr s"
  "conversations (sendMessage_resume s p out now) = conversations s"
  by (simp_all add: sendMessage_resume_def sendMessage_catch_def Let_def
      split: ApiOutcome.splits option.splits)

lemma ensure_fields:
  "heap (ensureConversation s now rndC) =
     (if currentConversationId s = None \<or> currentConversationId s = Some []
      then (heap s)(nextAddr s := newConversation s None False now rndC) else heap s)"
  "nextAddr s \<le> nextAddr (ensureConversation s now rndC)"
  by (simp_all add: ensureConversation_def)

lemma heapAllocated_ensure:
  "heapAllocated s \<Longrightarrow> heapAllocated (ensureConversation s now rndC)"
  by (simp add: ensureConversation_def heapAllocated_create)

lemma start_None:
  "sendMessage_start s cnt now rndC rndR = (s', None) \<Longrightarrow> s' = ensureConversation s now rndC"
  by (auto simp: sendMessage_start_def Let_def split: option.splits)

lemma start_Some_store:
  assumes "sendMessage_start s cnt now rndC rndR = (s', Some p)"
  shows "currentConversation (ensureConversation s now rndC) = Some (p_conversation p)"
    and "nextAddr s' = nextAddr (ensureConversation s now rndC)"
    and "conversations s' = conversations (ensureConversation s now rndC)"
    and "messages (heap s' b) =
           (if b = p_conversation p
            then messages (heap (ensureConversation s now rndC) b)
                   @ [userMessage cnt now, placeholderMessage now]
            else messages (heap (ensureConversation s now rndC) b))"
  using assms
  by (auto simp: sendMessage_start_def Let_def split: option.splits)

lemma currentConversation_in:
  "currentConversation s = Some a \<Longrightarrow> a \<in> set (conversations s)"
  by (auto simp: currentConversation_def find_Some_iff split: option.splits if_splits)

lemma removeFirstId_keeps:
  "m \<in> set xs \<Longrightarrow> msg_id m \<noteq> i \<Longrightarrow> m \<in> set (removeFirstId i xs)"
  by (induction xs) auto

lemma removeFirstId_subset: "set (removeFirstId i xs) \<subseteq> set xs"
  by (induction xs) auto

lemma heapAllocated_delete:
  "heapAllocated s \<Longrightarrow> heapAllocated (deleteConversation s i)"
  by (auto simp: heapAllocated_def deleteConversation_def Let_def splice1_def list_all_iff
      split: option.splits dest: in_set_takeD in_set_dropD)

lemma heapAllocated_start:
  assumes "heapAllocated s"
  shows "heapAllocated (fst (sendMessage_start s cnt now rndC rndR))"
proof (cases "sendMessage_start s cnt now rndC rndR")
  case (Pair s' po)
  show ?thesis
  proof (cases po)
    case None
    with Pair have "s' = ensureConversation s now rndC" by (simp add: start_None)
    with Pair assms show ?thesis by (simp add: heapAllocated_ensure)
  next
    case (Some p)
    with Pair start_Some_store(2,3) [of s cnt now rndC rndR s' p] heapAllocated_ensure [OF assms]
    show ?thesis by (simp add: heapAllocated_def)
  qed
qed

lemma wellFormed_step: "wellFormed sys \<Longrightarrow> wellFormed (step sys e)"
proof (cases e)
  case (Send cnt now rndC rndR)
  assume wf: "wellFormed sys"
  obtain s' po where sp: "sendMessage_start (store sys) cnt now rndC rndR = (s', po)"
    by (cases "sendMessage_start (store sys) cnt now rndC rndR")
  from wf have "heapAllocated (fst (sendMessage_start (store sys) cnt now rndC rndR))"
    by (simp add: wellFormed_def heapAllocated_start)
  with sp have ha: "heapAllocated s'" by simp
  show ?thesis
  proof (cases po)
    case None
    with Send sp ha wf show ?thesis by (simp add: wellFormed_def)
  next
    case (Some p)
    with Send sp ha wf start_Some(4) [of "store sys" cnt now rndC rndR s' p]
    show ?thesis by (simp add: wellFormed_def)
  qed
next
  case (Settle k out now)
  assume "wellFormed sys"
  then show ?thesis using Settle
    by (auto simp: wellFormed_def heapAllocated_def splice1_def list_all_iff
        dest: in_set_takeD in_set_dropD)
next
  case CancelActiveRequests
  assume "wellFormed sys"
  then show ?thesis using CancelActiveRequests by (simp add: wellFormed_def heapAllocated_def)
next
  case (NewConversation ttl temp now rnd)
  assume "wellFormed sys"
  then show ?thesis using NewConversation by (simp add: wellFormed_def heapAllocated_create)
next
  case (SelectConversation i)
  assume "wellFormed sys"
  then show ?thesis using SelectConversation by (simp add: wellFormed_def heapAllocated_def)
next
  case (DeleteConversation i)
  assume "wellFormed sys"
  then show ?thesis using DeleteConversation by (simp add: wellFormed_def heapAllocated_delete)
qed

lemma nextAddr_step: "nextAddr (store sys) \<le> nextAddr (store (step sys e))"
proof (cases e)
  case (Send cnt now rndC rndR)
  obtain s' po where sp: "sendMessage_start (store sys) cnt now rndC rndR = (s', po)"
    by (cases "sendMessage_start (store sys) cnt now rndC rndR")
  show ?thesis
  proof (cases po)
    case None
    with sp have "s' = ensureConversation (store sys) now rndC" by (simp add: start_None)
    with None Send sp show ?thesis by (simp add: ensure_fields)
  next
    case (Some p)
    with Send sp start_Some_store(2) [of "store sys" cnt now rndC rndR s' p]
    show ?thesis by (simp add: ensure_fields)
  qed
qed (simp_all)

lemma step_keeps_message:
  assumes wf: "wellFormed sys"
    and a: "a < nextAddr (store sys)"
    and m: "m \<in> set (messages (heap (store sys) a))"
    and npl: "\<not> isPlaceholderId (msg_id m)"
  shows "m \<in> set (messages (heap (store (step sys e)) a))"
proof (cases e)
  case (Send cnt now rndC rndR)
  obtain s' po where sp: "sendMessage_start (store sys) cnt now rndC rndR = (s', po)"
    by (cases "sendMessage_start (store sys) cnt now rndC rndR")
  have en: "m \<in> set (messages (heap (ensureConversation (store sys) now rndC) a))"
    using a m by (simp add: ensure_fields)
  show ?thesis
  proof (cases po)
    case None
    with sp have "s' = ensureConversation (store sys) now rndC" by (simp add: start_None)
    with None Send sp en show ?thesis by simp
  next
    case (Some p)
    with Send sp en start_Some_store(4) [of "store sys" cnt now rndC rndR s' p a]
    show ?thesis by auto
  qed
next
  case (Settle k out now)
  show ?thesis
  proof (cases "k < length (pending sys)")
    case False
    with Settle m show ?thesis by simp
  next
    case True
    with wf have "isPlaceholderId (p_placeholderId (pending sys ! k))"
      by (simp add: wellFormed_def list_all_length)
    with npl have ne: "msg_id m \<noteq> p_placeholderId (pending sys ! k)" by auto
    have k1: "m \<in> set (removeFirstId (p_placeholderId (pending sys ! k)) (messages (heap (store sys) a)))"
      using m ne by (rule removeFirstId_keeps)
    then have k2: "m \<in> set (removeFirstId (p_placeholderId (pending sys ! k))
             (removeFirstId (p_placeholderId (pending sys ! k)) (messages (heap (store sys) a))))"
      using ne by (rule removeFirstId_keeps)
    from True Settle m k1 k2 show ?thesis
      by (auto simp: messages_resume split: ApiOutcome.splits option.splits)
  qed
next
  case (NewConversation ttl temp now rnd)
  with a m show ?thesis by simp
qed (use m in simp_all)

section \<open>The user message stays\<close>

lemma run_Cons: "run sys (e # es) = run (step sys e) es"
  by (simp add: run_def)

lemma run_Nil: "run sys [] = sys"
  by (simp add: run_def)

lemma run_keeps_message:
  "wellFormed sys \<Longrightarrow> a < nextAddr (store sys) \<Longrightarrow> m \<in> set (messages (heap (store sys) a)) \<Longrightarrow>
   \<not> isPlaceholderId (msg_id m) \<Longrightarrow> m \<in> set (messages (heap (store (run sys es)) a))"
proof (induction es arbitrary: sys)
  case Nil
  then show ?case by (simp add: run_Nil)
next
  case (Cons e es)
  have "wellFormed (step sys e)" using Cons.prems(1) by (rule wellFormed_step)
  moreover have "a < nextAddr (store (step sys e))"
    using Cons.prems(2) nextAddr_step [of sys e] by simp
  moreover have "m \<in> set (messages (heap (store (step sys e)) a))"
    using Cons.prems by (rule step_keeps_message)
  ultimately show ?case using Cons.IH Cons.prems(4) by (simp add: run_Cons)
qed

lemma removeFirstId_append_last:
  "\<forall>m \<in> set xs. msg_id m \<noteq> i \<Longrightarrow> msg_id y \<noteq> i \<Longrightarrow> msg_id z = i \<Longrightarrow>
   removeFirstId i (xs @ [y, z]) = xs @ [y]"
  by (induction xs) auto

lemma userMessageId_neq_placeholder: "userMessageId t \<noteq> placeholderMessageId t'"
  using isPlaceholderId_placeholder [of t'] not_isPlaceholderId_user [of t] by metis

text \<open>
  C10. The user message that \<open>sendMessage\<close> appends at its start stays in the message
  list of its conversation whatever happens afterwards: whatever the call settles to
  (response, failure, timeout, cancellation) and whatever other events run in between; only
  messages with a placeholder id are ever removed. If the call is rejected, the conversation
  is left with the messages it had and the user message, and no assistant reply (given that
  no older message carries the id of the new placeholder).
\<close>

theorem sendMessage_user_message_stays:
  assumes wf: "wellFormed sys"
    and st: "sendMessage_start (store sys) cnt now rndC rndR = (s1, Some p)"
  shows "userMessage cnt now
           \<in> set (messages (heap (store (run (step sys (Send cnt now rndC rndR)) es))
                               (p_conversation p))) \<and>
         ((\<forall>m \<in> set (messages (heap (ensureConversation (store sys) now rndC) (p_conversation p))).
              msg_id m \<noteq> placeholderMessageId now) \<longrightarrow>
          messages (heap (sendMessage_resume s1 p (Rejected e) now') (p_conversation p))
            = messages (heap (ensureConversation (store sys) now rndC) (p_conversation p))
                @ [userMessage cnt now])"
proof
  let ?sys1 = "step sys (Send cnt now rndC rndR)"
  let ?a = "p_conversation p"
  have s1: "store ?sys1 = s1" using st by simp
  have wf1: "wellFormed ?sys1" using wf by (rule wellFormed_step)
  have cur: "currentConversation (ensureConversation (store sys) now rndC) = Some ?a"
    using st by (rule start_Some_store(1))
  have "heapAllocated s1" using wf1 s1 by (simp add: wellFormed_def)
  moreover have "?a \<in> set (conversations s1)"
    using currentConversation_in [OF cur] start_Some_store(3) [OF st] by simp
  ultimately have a: "?a < nextAddr (store ?sys1)"
    using s1 by (simp add: heapAllocated_def list_all_iff)
  have m: "userMessage cnt now \<in> set (messages (heap (store ?sys1) ?a))"
    using start_Some_store(4) [OF st, of ?a] s1 by simp
  have "\<not> isPlaceholderId (msg_id (userMessage cnt now))"
    by (simp add: userMessage_def)
  with wf1 a m show "userMessage cnt now \<in> set (messages (heap (store (run ?sys1 es)) ?a))"
    by (rule run_keeps_message)
next
  let ?a = "p_conversation p"
  show "(\<forall>m \<in> set (messages (heap (ensureConversation (store sys) now rndC) ?a)).
              msg_id m \<noteq> placeholderMessageId now) \<longrightarrow>
          messages (heap (sendMessage_resume s1 p (Rejected e) now') ?a)
            = messages (heap (ensureConversation (store sys) now rndC) ?a) @ [userMessage cnt now]"
  proof
    assume fresh: "\<forall>m \<in> set (messages (heap (ensureConversation (store sys) now rndC) ?a)).
              msg_id m \<noteq> placeholderMessageId now"
    have pid: "p_placeholderId p = placeholderMessageId now" using st by (rule start_Some(4))
    have "removeFirstId (placeholderMessageId now)
            (messages (heap (ensureConversation (store sys) now rndC) ?a)
               @ [userMessage cnt now, placeholderMessage now])
          = messages (heap (ensureConversation (store sys) now rndC) ?a) @ [userMessage cnt now]"
      using fresh
      by (rule removeFirstId_append_last)
         (simp_all add: userMessage_def placeholderMessage_def userMessageId_neq_placeholder)
    then show "messages (heap (sendMessage_resume s1 p (Rejected e) now') ?a)
            = messages (heap (ensureConversation (store sys) now rndC) ?a) @ [userMessage cnt now]"
      using start_Some_store(4) [OF st, of ?a] pid by (simp add: messages_resume)
  qed
qed


theorem sendMessage_user_message_stays_witness:
  "userMessage ''hi'' 1
     \<in> set (messages (heap (store (run (step initialSystem (Send ''hi'' 1 ''x'' ''r1''))
                                      [Settle 0 (Rejected networkError) 2])) 0)) \<and>
   messages (heap (sendMessage_resume
                     (fst (sendMessage_start initialStore ''hi'' 1 ''x'' ''r1''))
                     (the (snd (sendMessage_start initialStore ''hi'' 1 ''x'' ''r1'')))
                     (Rejected networkError) 2) 0)
     = [userMessage ''hi'' 1]"
proof -
  define s1 where "s1 = fst (sendMessage_start initialStore ''hi'' 1 ''x'' ''r1'')"
  define p where "p = the (snd (sendMessage_start initialStore ''hi'' 1 ''x'' ''r1''))"
  have sp: "sendMessage_start (store initialSystem) ''hi'' 1 ''x'' ''r1'' = (s1, Some p)"
    unfolding s1_def p_def by (simp add: eval_defs)
  have pc: "p_conversation p = 0"
    unfolding p_def by (simp add: eval_defs)
  have ens: "messages (heap (ensureConversation (store initialSystem) 1 ''x'') 0) = []"
    by (simp add: eval_defs)
  have wf: "wellFormed initialSystem"
    by (simp add: wellFormed_def heapAllocated_def initialSystem_def initialStore_def)
  show ?thesis
    using sendMessage_user_message_stays [OF wf sp,
        of "[Settle 0 (Rejected networkError) 2]" networkError 2]
    unfolding s1_def [symmetric] p_def [symmetric] pc ens
    by simp
qed

section \<open>Placeholders and suspended calls\<close>

lemma ids_removeFirstId:
  "mset (filter isPlaceholderId (map msg_id (removeFirstId i xs)))
     = mset (filter isPlaceholderId (map msg_id xs))
         - (if isPlaceholderId i then {#i#} else {#})"
  by (induction xs) auto

lemma pendingOn_append:
  "pendingOn \<lparr> store = s, pending = ps @ [p] \<rparr> a
     = pendingOn \<lparr> store = s', pending = ps \<rparr> a @ (if p_conversation p = a then [p] else [])"
  by (simp add: pendingOn_def)

lemma pendingOn_store [simp]: "pendingOn (sys\<lparr> store := s \<rparr>) a = pendingOn sys a"
  by (simp add: pendingOn_def)

lemma pend_splice1:
  assumes "k < length ps"
  shows "mset (map f (filter Q (splice1 k ps)))
           = mset (map f (filter Q ps)) - (if Q (ps ! k) then {#f (ps ! k)#} else {#})"
proof -
  have "ps = take k ps @ ps ! k # drop (Suc k) ps"
    using assms by (rule id_take_nth_drop)
  then have "mset (map f (filter Q ps))
               = mset (map f (filter Q (take k ps @ ps ! k # drop (Suc k) ps)))"
    by simp
  then show ?thesis by (simp add: splice1_def)
qed

lemma sub_diff_both:
  "(A::'a multiset) \<subseteq># B \<Longrightarrow> A - X \<subseteq># B - X"
  by (auto simp: subseteq_mset_def intro: diff_le_mono)

lemma sub_diff_absent:
  "(A::'a multiset) \<subseteq># B \<Longrightarrow> x \<notin># A \<Longrightarrow> A \<subseteq># B - {#x#}"
proof -
  assume a: "A \<subseteq># B" and x: "x \<notin># A"
  have "A - {#x#} \<subseteq># B - {#x#}" using a by (rule sub_diff_both)
  moreover have "A - {#x#} = A" using x by simp
  ultimately show ?thesis by simp
qed

lemma sub_diff_twice:
  "(A::'a multiset) \<subseteq># B \<Longrightarrow> A - {#x#} - {#x#} \<subseteq># B - {#x#}"
proof -
  assume a: "A \<subseteq># B"
  have "A - {#x#} - {#x#} \<subseteq># A - {#x#}" by (rule diff_subset_eq_self)
  also have "A - {#x#} \<subseteq># B - {#x#}" using a by (rule sub_diff_both)
  finally show ?thesis .
qed


lemma ids_remove_sub:
  assumes "mset (filter isPlaceholderId (map msg_id xs)) \<subseteq># P"
  shows "mset (filter isPlaceholderId (map msg_id (removeFirstId i xs))) \<subseteq># P - {#i#}"
proof (cases "isPlaceholderId i")
  case True
  show ?thesis
    unfolding ids_removeFirstId using True sub_diff_both [OF assms, of "{#i#}"]
    by (simp only: if_True)
next
  case False
  then have "i \<notin># mset (filter isPlaceholderId (map msg_id xs))" by auto
  then show ?thesis
    unfolding ids_removeFirstId using False sub_diff_absent [OF assms]
    by (simp only: if_False diff_empty)
qed

lemma ids_remove_twice_sub:
  assumes "mset (filter isPlaceholderId (map msg_id xs)) \<subseteq># P"
  shows "mset (filter isPlaceholderId (map msg_id (removeFirstId i (removeFirstId i xs))))
           \<subseteq># P - {#i#}"
proof (cases "isPlaceholderId i")
  case True
  show ?thesis
    unfolding ids_removeFirstId using True sub_diff_twice [OF assms, of i]
    by (simp only: if_True)
next
  case False
  then have "i \<notin># mset (filter isPlaceholderId (map msg_id xs))" by auto
  then show ?thesis
    unfolding ids_removeFirstId using False sub_diff_absent [OF assms]
    by (simp only: if_False diff_empty)
qed

lemma ok_remove:
  "list_all Q xs \<Longrightarrow> list_all Q (removeFirstId i xs)"
  using removeFirstId_subset [of i xs] by (auto simp: list_all_iff)

lemma accounted_settle:
  assumes acc: "placeholdersAccounted sys"
    and adm: "admissible sys (Settle k out now)"
    and k: "k < length (pending sys)"
  shows "placeholdersAccounted (step sys (Settle k out now))"
  unfolding placeholdersAccounted_def
proof (intro allI)
  fix a
  let ?p = "pending sys ! k"
  let ?i = "p_placeholderId ?p"
  let ?M = "messages (heap (store sys) a)"
  let ?P = "mset (map p_placeholderId (pendingOn sys a))"
  let ?ok = "\<lambda>m. isPlaceholder m \<longrightarrow> isPlaceholderId (msg_id m)"
  let ?sys' = "step sys (Settle k out now)"
  from acc have ok: "list_all ?ok ?M"
    and sub: "mset (filter isPlaceholderId (map msg_id ?M)) \<subseteq># ?P"
    by (simp_all add: placeholdersAccounted_def)
  have P': "mset (map p_placeholderId (pendingOn ?sys' a))
              = ?P - (if p_conversation ?p = a then {#?i#} else {#})"
    using k pend_splice1 [OF k, of p_placeholderId "\<lambda>p. p_conversation p = a"]
    by (simp add: pendingOn_def)
  show "list_all ?ok (messages (heap (store ?sys') a)) \<and>
        mset (filter isPlaceholderId (map msg_id (messages (heap (store ?sys') a))))
          \<subseteq># mset (map p_placeholderId (pendingOn ?sys' a))"
  proof (cases "p_conversation ?p = a")
    case False
    with k ok sub P' show ?thesis by (simp add: messages_resume)
  next
    case True
    note r1 = ids_remove_sub [OF sub, of ?i] ok_remove [OF ok, of ?i]
    note r2 = ids_remove_twice_sub [OF sub, of ?i] ok_remove [OF ok_remove [OF ok, of ?i], of ?i]
    show ?thesis
    proof (cases out)
      case (Rejected e)
      with True k P' r1 show ?thesis by (simp add: messages_resume)
    next
      case (Resolved d)
      with adm k have act: "p_requestId ?p \<in> activeRequests (store sys)"
        and cnt: "\<And>r. rd_response d = Some r \<Longrightarrow> rp_content r \<noteq> ''...''"
        by auto
      show ?thesis
      proof (cases "rd_success d")
        case False
        with Resolved True k P' r1 act show ?thesis by (simp add: messages_resume)
      next
        case succ: True
        show ?thesis
        proof (cases "rd_response d")
          case None
          with succ Resolved True k P' r2 act show ?thesis by (simp add: messages_resume)
        next
          case (Some r)
          have "\<not> isPlaceholder (assistantMessage r now)"
            using cnt [OF Some] by (simp add: isPlaceholder_def assistantMessage_def)
          moreover have "\<not> isPlaceholderId (msg_id (assistantMessage r now))"
            by (simp add: assistantMessage_def)
          ultimately show ?thesis
            using Some succ Resolved True k P' r1 act by (simp add: messages_resume)
        qed
      qed
    qed
  qed
qed


lemma accounted_ensure:
  assumes "list_all Q (messages (heap s a))"
    and "mset (filter isPlaceholderId (map msg_id (messages (heap s a)))) \<subseteq># P"
  shows "list_all Q (messages (heap (ensureConversation s now rndC) a)) \<and>
         mset (filter isPlaceholderId
                 (map msg_id (messages (heap (ensureConversation s now rndC) a)))) \<subseteq># P"
  using assms by (simp add: ensure_fields newConversation_def)

lemma accounted_send:
  assumes acc: "placeholdersAccounted sys"
  shows "placeholdersAccounted (step sys (Send cnt now rndC rndR))"
  unfolding placeholdersAccounted_def
proof (intro allI)
  fix a
  let ?M = "messages (heap (store sys) a)"
  let ?M1 = "messages (heap (ensureConversation (store sys) now rndC) a)"
  let ?P = "mset (map p_placeholderId (pendingOn sys a))"
  let ?ok = "\<lambda>m. isPlaceholder m \<longrightarrow> isPlaceholderId (msg_id m)"
  let ?sys' = "step sys (Send cnt now rndC rndR)"
  from acc have "list_all ?ok ?M"
    and "mset (filter isPlaceholderId (map msg_id ?M)) \<subseteq># ?P"
    by (simp_all add: placeholdersAccounted_def)
  then have ok1: "list_all ?ok ?M1"
    and sub1: "mset (filter isPlaceholderId (map msg_id ?M1)) \<subseteq># ?P"
    using accounted_ensure [of ?ok "store sys" a ?P now rndC] by simp_all
  obtain s' po where sp: "sendMessage_start (store sys) cnt now rndC rndR = (s', po)"
    by (cases "sendMessage_start (store sys) cnt now rndC rndR")
  show "list_all ?ok (messages (heap (store ?sys') a)) \<and>
        mset (filter isPlaceholderId (map msg_id (messages (heap (store ?sys') a))))
          \<subseteq># mset (map p_placeholderId (pendingOn ?sys' a))"
  proof (cases po)
    case None
    with sp have "s' = ensureConversation (store sys) now rndC" by (simp add: start_None)
    with None sp ok1 sub1 show ?thesis by simp
  next
    case (Some p)
    have pid: "p_placeholderId p = placeholderMessageId now"
      using sp Some start_Some(4) by simp
    have msgs: "messages (heap s' a) =
           (if a = p_conversation p
            then ?M1 @ [userMessage cnt now, placeholderMessage now] else ?M1)"
      using sp Some start_Some_store(4) by simp
    have pend: "pendingOn ?sys' a = pendingOn sys a @ (if p_conversation p = a then [p] else [])"
      using sp Some by (simp add: pendingOn_def)
    have st: "store ?sys' = s'" using sp Some by simp
    have u: "\<not> isPlaceholder (userMessage cnt now)" "\<not> isPlaceholderId (msg_id (userMessage cnt now))"
      "isPlaceholderId (msg_id (placeholderMessage now))"
      "msg_id (placeholderMessage now) = placeholderMessageId now"
      by (simp_all add: isPlaceholder_def userMessage_def placeholderMessage_def)
    show ?thesis
    proof (cases "a = p_conversation p")
      case True
      then show ?thesis
        unfolding st msgs pend using ok1 sub1 u pid by simp
    next
      case False
      then have "p_conversation p \<noteq> a" by simp
      with False show ?thesis
        unfolding st msgs pend using ok1 sub1 by simp
    qed
  qed
qed

lemma accounted_step:
  assumes acc: "placeholdersAccounted sys" and adm: "admissible sys e"
  shows "placeholdersAccounted (step sys e)"
proof (cases e)
  case (Send cnt now rndC rndR)
  with acc show ?thesis by (simp only: accounted_send)
next
  case (Settle k out now)
  show ?thesis
  proof (cases "k < length (pending sys)")
    case True
    with acc adm Settle show ?thesis by (simp only: accounted_settle)
  next
    case False
    with acc Settle show ?thesis by simp
  qed
next
  case CancelActiveRequests
  with acc show ?thesis by (simp add: placeholdersAccounted_def)
next
  case (NewConversation ttl temp now rnd)
  with acc show ?thesis by (simp add: placeholdersAccounted_def newConversation_def)
next
  case (SelectConversation i)
  with acc show ?thesis by (simp add: placeholdersAccounted_def)
next
  case (DeleteConversation i)
  with acc show ?thesis by (simp add: placeholdersAccounted_def)
qed

lemma accounted_run:
  "placeholdersAccounted sys \<Longrightarrow> admissibleRun sys es \<Longrightarrow> placeholdersAccounted (run sys es)"
proof (induction es arbitrary: sys)
  case Nil
  then show ?case by (simp add: run_Nil)
next
  case (Cons e es)
  from Cons.prems have "placeholdersAccounted (step sys e)" "admissibleRun (step sys e) es"
    by (simp_all add: accounted_step)
  then show ?case using Cons.IH by (simp add: run_Cons)
qed

lemma filter_length_mono:
  "list_all (\<lambda>x. P x \<longrightarrow> Q x) xs \<Longrightarrow> length (filter P xs) \<le> length (filter Q xs)"
  by (induction xs) auto

lemma accounted_bound:
  assumes "placeholdersAccounted sys"
  shows "length (placeholdersIn sys a) \<le> length (pendingOn sys a)"
proof -
  let ?M = "messages (heap (store sys) a)"
  have ok: "list_all (\<lambda>m. isPlaceholder m \<longrightarrow> isPlaceholderId (msg_id m)) ?M"
    and sub: "mset (filter isPlaceholderId (map msg_id ?M))
                \<subseteq># mset (map p_placeholderId (pendingOn sys a))"
    using assms by (simp_all add: placeholdersAccounted_def)
  have "length (filter isPlaceholder ?M) \<le> length (filter (\<lambda>m. isPlaceholderId (msg_id m)) ?M)"
    using ok by (rule filter_length_mono)
  also have "\<dots> = length (filter isPlaceholderId (map msg_id ?M))"
    by (simp add: filter_map comp_def)
  also have "\<dots> = size (mset (filter isPlaceholderId (map msg_id ?M)))"
    by (simp only: size_mset)
  also have "\<dots> \<le> size (mset (map p_placeholderId (pendingOn sys a)))"
    using sub by (rule size_mset_mono)
  also have "\<dots> = length (pendingOn sys a)"
    by (simp only: size_mset length_map)
  finally show ?thesis by (simp only: placeholdersIn_def)
qed

lemma accounted_initial: "placeholdersAccounted initialSystem"
  by (simp add: placeholdersAccounted_def initialSystem_def initialStore_def
      blankConversation_def pendingOn_def)

lemmas step_eval = eval_defs step.simps abortError_def reply_def networkError_def timeoutError_def

text \<open>
  C1, as the code has it. In every conversation the placeholder messages are never more
  than the \<open>sendMessage\<close> calls still suspended on it: each call appends one placeholder
  and removes it when it settles, so two overlapping sends hold two placeholders until the
  rejection of the superseded one is handled, and a conversation on which no call is
  suspended holds none. This holds from any state in which the placeholders are accounted
  for (the initial store is one), along every run whose events are admissible.
\<close>

theorem placeholders_bounded_by_pending:
  assumes "placeholdersAccounted sys" and "admissibleRun sys es"
  shows "length (placeholdersIn (run sys es) a) \<le> length (pendingOn (run sys es) a)"
  using assms by (simp only: accounted_run accounted_bound)

theorem placeholders_counterexample:
  "length (placeholdersIn (run initialSystem
       [Send ''a'' 1 ''x'' ''r1'', Send ''b'' 2 ''x'' ''r2'']) 0) = 2"
  by (simp add: step_eval placeholdersIn_def isPlaceholder_def)

theorem placeholders_bounded_by_pending_witness:
  "length (placeholdersIn (run initialSystem
       [Send ''a'' 1 ''x'' ''r1'', Send ''b'' 2 ''x'' ''r2'',
        Settle 0 (Rejected abortError) 3, Settle 0 (reply ''B'') 4]) 0)
   \<le> length (pendingOn (run initialSystem
       [Send ''a'' 1 ''x'' ''r1'', Send ''b'' 2 ''x'' ''r2'',
        Settle 0 (Rejected abortError) 3, Settle 0 (reply ''B'') 4]) 0)"
proof -
  have adm: "admissibleRun initialSystem
       [Send ''a'' 1 ''x'' ''r1'', Send ''b'' 2 ''x'' ''r2'',
        Settle 0 (Rejected abortError) 3, Settle 0 (reply ''B'') 4]"
    by (simp add: step_eval)
  show ?thesis
    using placeholders_bounded_by_pending [OF accounted_initial adm] .
qed

section \<open>Superseded requests\<close>

text \<open>
  C2 at the run \<open>threeSends\<close>: when the rejection of the aborted first request is handled,
  its \<open>finally\<close> block deletes the queue entry of the conversation, which by then holds the
  controller of the second request. The third send therefore finds no controller to abort:
  afterwards the second and the third request are both suspended on the conversation, with
  the controllers 1 and 2, neither of them aborted, and when both are answered both
  assistant messages are appended.
\<close>

theorem sendMessage_third_send_keeps_second:
  "(let sys = run initialSystem threeSends;
        sys' = run sys [Settle 0 (reply ''B'') 5, Settle 0 (reply ''C'') 6]
    in map p_requestId (pending sys) = [''req-2-r2'', ''req-4-r3''] \<and>
       map p_conversation (pending sys) = [0, 0] \<and>
       map p_abortController (pending sys) = [1, 2] \<and>
       aborted (store sys) = {0} \<and>
       map content (messages (heap (store sys') 0)) = [''a'', ''b'', ''c'', ''B'', ''C''])"
  by (simp add: step_eval threeSends_def)

theorem sendMessage_third_send_keeps_second_witness:
  "map p_abortController (pending (run initialSystem threeSends)) = [1, 2] \<and>
   aborted (store (run initialSystem threeSends)) = {0}"
  using sendMessage_third_send_keeps_second by (simp add: Let_def)

section \<open>Base64 decoding\<close>

lemma base64Char_not_pad: "isBase64Char c \<Longrightarrow> c \<noteq> CHR ''=''"
  by (auto simp: isBase64Char_def base64Alphabet_def)

lemma base64Char_not_ascii_ws: "isBase64Char c \<Longrightarrow> \<not> isAsciiWhitespace c"
  by (auto simp: isBase64Char_def base64Alphabet_def isAsciiWhitespace_def)

lemma base64Char_not_regex_ws: "isBase64Char c \<Longrightarrow> \<not> isRegexWhitespace c"
  by (auto simp: isBase64Char_def base64Alphabet_def isRegexWhitespace_def)

lemma decodeSextets_append:
  "length xs mod 4 = 0 \<Longrightarrow> decodeSextets (xs @ ys) = decodeSextets xs @ decodeSextets ys"
proof (induction xs rule: decodeSextets.induct)
  case (1 a b c d rest)
  then have "length rest mod 4 = 0" by (simp add: mod_Suc split: if_splits)
  with 1 show ?case by (simp add: Let_def)
qed simp_all

lemma length_decodeSextets:
  "length (decodeSextets xs) =
     (length xs div 4) * 3 + (if length xs mod 4 = 2 then 1 else if length xs mod 4 = 3 then 2 else 0)"
proof (induction xs rule: decodeSextets.induct)
  case (1 a b c d rest)
  have l: "length (decodeSextets (a # b # c # d # rest)) = 3 + length (decodeSextets rest)"
    by (simp add: Let_def)
  have "length (a # b # c # d # rest) = length rest + 4" by simp
  then have d: "length (a # b # c # d # rest) div 4 = length rest div 4 + 1"
    and m: "length (a # b # c # d # rest) mod 4 = length rest mod 4"
    by (simp_all del: length_Cons list.size)
  show ?case unfolding l d m using 1 by simp
qed (simp_all add: Let_def)

lemma padEnd4_id: "length s mod 4 = 0 \<Longrightarrow> padEnd4 s = s"
proof -
  assume "length s mod 4 = 0"
  then have "((length s + 3) div 4) * 4 = length s" by presburger
  then show ?thesis by (simp add: padEnd4_def)
qed

lemma valid_split:
  assumes "isValidBase64 b"
  shows "b = takeWhile isBase64Char b @ dropWhile isBase64Char b"
    and "dropWhile isBase64Char b = [] \<or> dropWhile isBase64Char b = ''=''
         \<or> dropWhile isBase64Char b = ''==''"
    and "list_all isBase64Char (takeWhile isBase64Char b)"
    and "length b mod 4 = 0"
  using assms by (auto simp: isValidBase64_def list_all_iff dest: set_takeWhileD)

lemma filter_ws_valid:
  assumes "isValidBase64 b"
  shows "filter (\<lambda>c. \<not> isAsciiWhitespace c) b = b"
proof -
  have "\<forall>c \<in> set (takeWhile isBase64Char b). \<not> isAsciiWhitespace c"
    by (auto dest: set_takeWhileD base64Char_not_ascii_ws)
  moreover have "\<forall>c \<in> set (dropWhile isBase64Char b). \<not> isAsciiWhitespace c"
  proof -
    from valid_split(2) [OF assms] have "set (dropWhile isBase64Char b) \<subseteq> {CHR ''=''}"
      by (elim disjE) (simp_all only: set_simps empty_subsetI subset_refl insert_absorb2)
    then show ?thesis by (auto simp: isAsciiWhitespace_def)
  qed
  moreover have "set b = set (takeWhile isBase64Char b) \<union> set (dropWhile isBase64Char b)"
    by (metis set_append takeWhile_dropWhile_id)
  ultimately have "\<forall>c \<in> set b. \<not> isAsciiWhitespace c"
    by blast
  then show ?thesis by (simp add: filter_id_conv)
qed

lemma stripPadding_valid:
  assumes v: "isValidBase64 b"
  shows "stripPadding b = takeWhile isBase64Char b"
proof -
  let ?body = "takeWhile isBase64Char b"
  let ?pads = "dropWhile isBase64Char b"
  have b: "b = ?body @ ?pads" by simp
  have len: "length b mod 4 = 0" using v by (rule valid_split(4))
  have lastbody: "last ?body \<noteq> CHR ''=''" if "?body \<noteq> []"
  proof -
    from that have "last ?body \<in> set ?body" by (rule last_in_set)
    then have "isBase64Char (last ?body)" by (rule set_takeWhileD [THEN conjunct2])
    then show ?thesis by (rule base64Char_not_pad)
  qed
  from valid_split(2) [OF v] consider "?pads = []" | "?pads = ''=''" | "?pads = ''==''" by blast
  then show ?thesis
  proof cases
    case 1
    then have bb: "b = ?body" using b by (metis append_Nil2)
    show ?thesis
    proof (cases "b = []")
      case True
      then show ?thesis by (simp add: stripPadding_def)
    next
      case False
      with bb lastbody have "last b \<noteq> CHR ''=''" by metis
      with bb len False show ?thesis by (simp add: stripPadding_def)
    qed
  next
    case 2
    then have bb: "b = ?body @ ''=''" using b by metis
    have "length b = length ?body + 1" by (subst bb) simp
    with len have ne: "?body \<noteq> []" by auto
    have l1: "last b = CHR ''=''" by (subst bb) simp
    have bl: "butlast b = ?body" by (subst bb) (simp add: butlast_append)
    have l2: "last (butlast b) \<noteq> CHR ''=''" using bl lastbody [OF ne] by simp
    have "1 \<le> length b" by (subst bb) simp
    with len l1 l2 bl show ?thesis by (simp add: stripPadding_def)
  next
    case 3
    then have bb: "b = ?body @ ''==''" using b by metis
    have l1: "last b = CHR ''=''" by (subst bb) simp
    have bl: "butlast b = ?body @ ''=''" by (subst bb) (simp add: butlast_append)
    have l2: "last (butlast b) = CHR ''=''" by (simp add: bl)
    have bl2: "butlast (butlast b) = ?body" by (simp add: bl butlast_append)
    have "2 \<le> length b" by (subst bb) simp
    with len l1 l2 bl2 show ?thesis by (simp add: stripPadding_def)
  qed
qed

lemma body_length_valid:
  assumes v: "isValidBase64 b"
  shows "length (takeWhile isBase64Char b) mod 4 \<noteq> 1"
    and "length (decodeSextets (map base64Value (takeWhile isBase64Char b)))
           + length (dropWhile isBase64Char b) = (length b div 4) * 3"
proof -
  let ?body = "takeWhile isBase64Char b"
  let ?pads = "dropWhile isBase64Char b"
  have "length b = length ?body + length ?pads"
    by (metis length_append takeWhile_dropWhile_id)
  moreover have "length b mod 4 = 0" using v by (rule valid_split(4))
  moreover from valid_split(2) [OF v] have "length ?pads = 0 \<or> length ?pads = 1 \<or> length ?pads = 2"
    by auto
  ultimately have c: "(length ?pads = 0 \<and> length ?body mod 4 = 0 \<and> length b div 4 = length ?body div 4)
     \<or> (length ?pads = 1 \<and> length ?body mod 4 = 3 \<and> length b div 4 = length ?body div 4 + 1)
     \<or> (length ?pads = 2 \<and> length ?body mod 4 = 2 \<and> length b div 4 = length ?body div 4 + 1)"
    by presburger
  then show "length ?body mod 4 \<noteq> 1" by auto
  from c show "length (decodeSextets (map base64Value ?body)) + length ?pads = (length b div 4) * 3"
    by (auto simp: length_decodeSextets)
qed

lemma atob_valid:
  assumes v: "isValidBase64 b"
  shows "atob b = Some (decodeSextets (map base64Value (takeWhile isBase64Char b)))"
  using body_length_valid(1) [OF v] valid_split(3) [OF v]
  by (simp add: atob_def filter_ws_valid [OF v] stripPadding_valid [OF v])

lemma chunkSize_facts: "chunkSize mod 4 = 0" "0 < chunkSize" "4 \<le> chunkSize"
  by (simp_all add: chunkSize_def)

text \<open>A chunk of a valid string, cut at a multiple of 4, is valid, and so is its body.\<close>

lemma chunk_valid:
  assumes v: "isValidBase64 b" and i4: "i mod 4 = 0" and il: "i < length b"
  shows "isValidBase64 (take chunkSize (drop i b))"
    and "takeWhile isBase64Char (take chunkSize (drop i b))
           = take chunkSize (drop i (takeWhile isBase64Char b))"
    and "i + chunkSize < length b \<Longrightarrow> length (take chunkSize (drop i (takeWhile isBase64Char b))) = chunkSize"
proof -
  let ?body = "takeWhile isBase64Char b"
  let ?pads = "dropWhile isBase64Char b"
  let ?C = chunkSize
  have b: "b = ?body @ ?pads" by simp
  have len: "length b mod 4 = 0" using v by (rule valid_split(4))
  have lb: "length b = length ?body + length ?pads"
    by (metis length_append takeWhile_dropWhile_id)
  have pl: "length ?pads \<le> 2"
    using valid_split(2) [OF v] by (elim disjE) (simp_all del: dropWhile_eq_Nil_conv)
  have all: "\<forall>c \<in> set ?body. isBase64Char c" by (auto dest: set_takeWhileD)
  from i4 il len have i4': "i + 4 \<le> length b" by presburger
  with lb pl have ib: "i \<le> length ?body" by simp
  have dr: "drop i b = drop i ?body @ ?pads"
    using drop_append [of i ?body ?pads] ib by simp
  have padsdw: "dropWhile isBase64Char ?pads = ?pads"
    using valid_split(2) [OF v] by (elim disjE) (simp_all add: isBase64Char_def base64Alphabet_def del: dropWhile_eq_Nil_conv)
  have padstw: "takeWhile isBase64Char ?pads = []"
    using valid_split(2) [OF v] by (elim disjE) (simp_all add: isBase64Char_def base64Alphabet_def del: dropWhile_eq_Nil_conv)
  have alld: "\<forall>c \<in> set (drop i ?body). isBase64Char c"
    using all by (auto dest: in_set_dropD)
  show "isValidBase64 (take ?C (drop i b))"
    and "takeWhile isBase64Char (take ?C (drop i b)) = take ?C (drop i ?body)"
  proof -
    show "takeWhile isBase64Char (take ?C (drop i b)) = take ?C (drop i ?body)"
    proof (cases "length (drop i b) \<le> ?C")
      case True
      then have t: "take ?C (drop i b) = drop i ?body @ ?pads" by (simp add: dr)
      from True dr have "length (drop i ?body) \<le> ?C" by (metis add_leE length_append)
      then have "take ?C (drop i ?body) = drop i ?body" by simp
      then show ?thesis unfolding t using alld padstw by (simp add: takeWhile_append2)
    next
      case False
      then have "?C < length b - i" by simp
      with i4 len chunkSize_facts(1) have "?C + 4 \<le> length b - i" by presburger
      with lb pl have "?C \<le> length (drop i ?body)" by simp
      then have t: "take ?C (drop i b) = take ?C (drop i ?body)" by (simp add: dr)
      have "\<forall>c \<in> set (take ?C (drop i ?body)). isBase64Char c"
        using alld by (auto dest: in_set_takeD)
      then show ?thesis unfolding t by (simp add: takeWhile_eq_all_conv)
    qed
    show "isValidBase64 (take ?C (drop i b))"
    proof (cases "length (drop i b) \<le> ?C")
      case True
      then have t: "take ?C (drop i b) = drop i ?body @ ?pads" by (simp add: dr)
      have dw: "dropWhile isBase64Char (drop i ?body @ ?pads) = ?pads"
        using alld padsdw by (simp add: dropWhile_append2)
      have "length (drop i ?body @ ?pads) = length b - i" using lb ib by simp
      with i4 len il have "length (drop i ?body @ ?pads) mod 4 = 0" by presburger
      with dw valid_split(2) [OF v] show ?thesis unfolding t isValidBase64_def by auto
    next
      case False
      then have "?C < length b - i" by simp
      with i4 len chunkSize_facts(1) have "?C + 4 \<le> length b - i" by presburger
      with lb pl have cl: "?C \<le> length (drop i ?body)" by simp
      then have t: "take ?C (drop i b) = take ?C (drop i ?body)" by (simp add: dr)
      have "\<forall>c \<in> set (take ?C (drop i ?body)). isBase64Char c"
        using alld by (auto dest: in_set_takeD)
      then have "dropWhile isBase64Char (take ?C (drop i ?body)) = []" by simp
      moreover have "length (take ?C (drop i ?body)) = ?C" using cl by simp
      ultimately show ?thesis unfolding t isValidBase64_def using chunkSize_facts(1) by simp
    qed
  qed
  show "length (take ?C (drop i ?body)) = ?C" if "i + ?C < length b"
  proof -
    from that have "?C < length b - i" by simp
    with i4 len chunkSize_facts(1) have "?C + 4 \<le> length b - i" by presburger
    with lb pl have "?C \<le> length (drop i ?body)" by simp
    then show ?thesis by simp
  qed
qed

lemma setAt_fits:
  "off + length bs \<le> length r \<Longrightarrow>
   setAt r bs off = Inr (take off r @ bs @ drop (off + length bs) r)"
  by (simp add: setAt_def)

lemma div4_add: "a mod 4 = 0 \<Longrightarrow> (a + n) div 4 = a div 4 + n div (4::nat)"
  by presburger

lemma div4_bound:
  assumes "i mod 4 = 0" and "n \<le> m - i" and "i < (m::nat)"
  shows "(i div 4) * 3 + (n div 4) * 3 \<le> (m div 4) * 3"
proof -
  have "i div 4 + n div 4 = (i + n) div 4" using assms(1) by (simp add: div4_add)
  also have "\<dots> \<le> m div 4" using assms(2,3) by (intro div_le_mono) simp
  finally have "(i div 4 + n div 4) * 3 \<le> (m div 4) * 3" by simp
  then show ?thesis by (simp add: add_mult_distrib)
qed

lemma chunkLoop_valid:
  "isValidBase64 b \<Longrightarrow> i mod 4 = 0 \<Longrightarrow> length result = (length b div 4) * 3 \<Longrightarrow> off = (i div 4) * 3 \<Longrightarrow>
     chunkLoop b i result off =
       Inr (take off result
            @ map charCodeAt (decodeSextets (map base64Value (drop i (takeWhile isBase64Char b))))
            @ drop (off + length (decodeSextets (map base64Value (drop i (takeWhile isBase64Char b)))))
                result)"
proof (induction b i result off rule: chunkLoop.induct)
  case (1 b i result off)
  note v = "1.prems"(1) and i4 = "1.prems"(2) and rlen = "1.prems"(3) and offv = "1.prems"(4)
  let ?body = "takeWhile isBase64Char b"
  let ?pads = "dropWhile isBase64Char b"
  let ?C = chunkSize
  let ?dec = "\<lambda>xs. decodeSextets (map base64Value xs)"
  have lb: "length b = length ?body + length ?pads"
    by (metis length_append takeWhile_dropWhile_id)
  have len: "length b mod 4 = 0" using v by (rule valid_split(4))
  show ?case
  proof (cases "i < length b")
    case False
    then have "length ?body \<le> i" using lb by simp
    then have "drop i ?body = []" by simp
    with False show ?thesis by (subst chunkLoop.simps) simp
  next
    case True
    let ?chunk = "take ?C (drop i b)"
    let ?cb = "take ?C (drop i ?body)"
    have cv: "isValidBase64 ?chunk" using v i4 True by (rule chunk_valid(1))
    have ctw: "takeWhile isBase64Char ?chunk = ?cb" using v i4 True by (rule chunk_valid(2))
    have clen: "length ?chunk mod 4 = 0" using cv by (rule valid_split(4))
    have atobc: "atob (padEnd4 ?chunk) = Some (?dec ?cb)"
      using atob_valid [OF cv] by (simp add: padEnd4_id [OF clen] ctw)
    have cl: "length ?chunk \<le> length b - i" by simp
    have "length (?dec ?cb) + length (dropWhile isBase64Char ?chunk) = (length ?chunk div 4) * 3"
      using body_length_valid(2) [OF cv] by (simp add: ctw)
    then have dl: "length (?dec ?cb) \<le> (length ?chunk div 4) * 3" by simp
    have "(i div 4) * 3 + (length ?chunk div 4) * 3 \<le> (length b div 4) * 3"
      using i4 cl True by (rule div4_bound)
    with dl have fits: "off + length (map charCodeAt (?dec ?cb)) \<le> length result"
      using rlen offv by simp
    let ?result' = "take off result @ map charCodeAt (?dec ?cb) @ drop (off + length (?dec ?cb)) result"
    have sa: "setAt result (map charCodeAt (?dec ?cb)) off = Inr ?result'"
      using setAt_fits [OF fits] by simp
    have unf: "chunkLoop b i result off = chunkLoop b (i + ?C) ?result' (off + length (?dec ?cb))"
      by (subst chunkLoop.simps) (simp add: True atobc sa)
    show ?thesis
    proof (cases "i + ?C < length b")
      case False
      then have "length (drop i ?body) \<le> ?C" using lb by simp
      then have "?cb = drop i ?body" by simp
      moreover have "chunkLoop b (i + ?C) ?result' (off + length (?dec ?cb)) = Inr ?result'"
        using False by (subst chunkLoop.simps) simp
      ultimately show ?thesis using unf by simp
    next
      case more: True
      have cbl: "length ?cb = ?C" using v i4 True more by (rule chunk_valid(3))
      then have cb4: "length (map base64Value ?cb) mod 4 = 0" using chunkSize_facts(1) by simp
      have dcl: "length (?dec ?cb) = (?C div 4) * 3"
        using cbl chunkSize_facts(1) by (simp add: length_decodeSextets)
      have split: "drop i ?body = ?cb @ drop (i + ?C) ?body"
        by (metis add.commute append_take_drop_id drop_drop)
      have decs: "?dec (drop i ?body) = ?dec ?cb @ ?dec (drop (i + ?C) ?body)"
        by (subst split) (simp only: map_append decodeSextets_append [OF cb4])
      have i4': "(i + ?C) mod 4 = 0" using i4 chunkSize_facts(1) by presburger
      have rl: "length ?result' = (length b div 4) * 3"
        using fits rlen by simp
      have off': "off + length (?dec ?cb) = ((i + ?C) div 4) * 3"
        unfolding offv dcl div4_add [OF i4] by (simp add: add_mult_distrib)
      have ih: "chunkLoop b (i + ?C) ?result' (off + length (?dec ?cb)) =
         Inr (take (off + length (?dec ?cb)) ?result'
              @ map charCodeAt (?dec (drop (i + ?C) ?body))
              @ drop (off + length (?dec ?cb) + length (?dec (drop (i + ?C) ?body))) ?result')"
        using "1.IH" [OF True atobc sa v i4' rl off'] .
      have offl: "off \<le> length result" using fits by simp
      have t1: "take (off + length (?dec ?cb)) ?result' = take off result @ map charCodeAt (?dec ?cb)"
        using offl by simp
      have t2: "drop (off + length (?dec ?cb) + k) ?result' = drop (off + length (?dec ?cb) + k) result" for k
        using offl by (simp add: add.commute add.left_commute)
      show ?thesis
        unfolding unf ih t1 t2 decs by (simp add: add.assoc)
    qed
  qed
qed

section \<open>Chunked and single-pass decoding\<close>

lemma singlePass_valid:
  "isValidBase64 b \<Longrightarrow>
   singlePass b = Inr (map charCodeAt (decodeSextets (map base64Value (takeWhile isBase64Char b))))"
  by (simp add: singlePass_def atob_valid)

lemma chunked_valid:
  assumes v: "isValidBase64 b"
  shows "base64ToUint8ArrayChunked b =
     Inr (map charCodeAt (decodeSextets (map base64Value (takeWhile isBase64Char b)))
          @ replicate (length (dropWhile isBase64Char b)) 0)"
proof -
  let ?dec = "decodeSextets (map base64Value (takeWhile isBase64Char b))"
  have "(length b div 4) * 3 - length ?dec = length (dropWhile isBase64Char b)"
    using body_length_valid(2) [OF v] by simp
  then show ?thesis
    using chunkLoop_valid [OF v, of 0 "replicate ((length b div 4) * 3) 0" 0]
    by (simp add: base64ToUint8ArrayChunked_def)
qed

lemma filter_regex_ws_valid:
  assumes "isValidBase64 b"
  shows "filter (\<lambda>c. \<not> isRegexWhitespace c) b = b"
proof -
  have "\<forall>c \<in> set (takeWhile isBase64Char b). \<not> isRegexWhitespace c"
    by (auto dest: set_takeWhileD base64Char_not_regex_ws)
  moreover have "\<forall>c \<in> set (dropWhile isBase64Char b). \<not> isRegexWhitespace c"
  proof -
    from valid_split(2) [OF assms] have "set (dropWhile isBase64Char b) \<subseteq> {CHR ''=''}"
      by (elim disjE) (simp_all only: set_simps empty_subsetI subset_refl insert_absorb2)
    then show ?thesis by (auto simp: isRegexWhitespace_def)
  qed
  moreover have "set b = set (takeWhile isBase64Char b) \<union> set (dropWhile isBase64Char b)"
    by (metis set_append takeWhile_dropWhile_id)
  ultimately have "\<forall>c \<in> set b. \<not> isRegexWhitespace c"
    by blast
  then show ?thesis by (simp add: filter_id_conv)
qed

text \<open>
  C6 on the code. For every valid base64 string, the chunked conversion returns the bytes of
  the single pass followed by one zero byte for each padding character: its buffer is
  allocated for three bytes per four characters and the bytes the padding stands for are
  never written. So \<open>base64ToUint8Array\<close> returns the decoded bytes for a valid input of at
  most 1000000 characters, and the decoded bytes followed by those zero bytes for a longer
  one; the two strategies agree on unpadded inputs only.
\<close>

theorem chunked_appends_zero_per_padding:
  assumes v: "isValidBase64 b"
  shows "\<exists>bytes. singlePass b = Inr bytes \<and>
           base64ToUint8ArrayChunked b
             = Inr (bytes @ replicate (length (dropWhile isBase64Char b)) 0) \<and>
           base64ToUint8Array b
             = (if length b > 1000000
                then Inr (bytes @ replicate (length (dropWhile isBase64Char b)) 0)
                else Inr bytes)"
proof -
  have p: "padEnd4 b = b" using valid_split(4) [OF v] by (rule padEnd4_id)
  show ?thesis
    by (simp add: base64ToUint8Array_def Let_def filter_regex_ws_valid [OF v] p
        singlePass_valid [OF v] chunked_valid [OF v])
qed

lemma decodeSextets_zeros: "decodeSextets (replicate (4 * k) 0) = replicate (3 * k) (CHR 0x00)"
proof (induction k)
  case 0
  then show ?case by simp
next
  case (Suc k)
  have "replicate (4 * Suc k) (0::nat) = 0 # 0 # 0 # 0 # replicate (4 * k) 0"
    by (simp add: numeral_eq_Suc)
  moreover have "replicate (3 * Suc k) (CHR 0x00) = CHR 0x00 # CHR 0x00 # CHR 0x00 # replicate (3 * k) (CHR 0x00)"
    by (simp add: numeral_eq_Suc)
  ultimately show ?case using Suc by (simp add: Let_def char_of_eq_iff)
qed

lemma bigInput_body: "x \<in> set (replicate 1000000 CHR ''A'') \<Longrightarrow> isBase64Char x"
  by (simp add: isBase64Char_def base64Alphabet_def)

lemma bigInput_split:
  "dropWhile isBase64Char (replicate 1000000 CHR ''A'' @ ''QQ=='') = ''==''"
  "takeWhile isBase64Char (replicate 1000000 CHR ''A'' @ ''QQ=='')
     = replicate 1000000 CHR ''A'' @ ''QQ''"
proof -
  have "dropWhile isBase64Char (replicate 1000000 CHR ''A'' @ ''QQ=='')
          = dropWhile isBase64Char ''QQ==''"
    by (rule dropWhile_append2) (rule bigInput_body)
  also have "\<dots> = ''==''"
    by (simp add: isBase64Char_def base64Alphabet_def)
  finally show "dropWhile isBase64Char (replicate 1000000 CHR ''A'' @ ''QQ=='') = ''==''" .
  have "takeWhile isBase64Char (replicate 1000000 CHR ''A'' @ ''QQ=='')
          = replicate 1000000 CHR ''A'' @ takeWhile isBase64Char ''QQ==''"
    by (rule takeWhile_append2) (rule bigInput_body)
  also have "\<dots> = replicate 1000000 CHR ''A'' @ ''QQ''"
    by (simp add: isBase64Char_def base64Alphabet_def)
  finally show "takeWhile isBase64Char (replicate 1000000 CHR ''A'' @ ''QQ=='')
     = replicate 1000000 CHR ''A'' @ ''QQ''" .
qed

lemma bigInput_valid: "isValidBase64 (replicate 1000000 CHR ''A'' @ ''QQ=='')"
  by (simp add: isValidBase64_def bigInput_split)

lemma bigInput_single:
  "singlePass (replicate 1000000 CHR ''A'' @ ''QQ=='') = Inr (replicate 750000 0 @ [0x41])"
proof -
  note tw = bigInput_split(2)
  have v: "base64Value CHR ''A'' = 0" "base64Value CHR ''Q'' = 16"
    by (simp_all add: base64Value_def base64Alphabet_def)
  have "decodeSextets (replicate (4 * 250000) 0 @ [16, 16]) = replicate (3 * 250000) (CHR 0x00) @ ''A''"
    by (simp only: decodeSextets_append length_replicate mod_mult_self1_is_0 decodeSextets_zeros)
       (simp add: char_of_eq_iff)
  then have "decodeSextets (replicate 1000000 0 @ [16, 16]) = replicate 750000 (CHR 0x00) @ ''A''"
    by simp
  then show ?thesis
    by (simp add: singlePass_valid [OF bigInput_valid] tw v charCodeAt_def)
qed

text \<open>
  The decoded file of 750001 bytes whose base64 text has 1000004 characters, the last two of
  them padding: the chunked conversion returns 750003 bytes.
\<close>

theorem chunked_appends_zero_per_padding_witness:
  "singlePass (replicate 1000000 CHR ''A'' @ ''QQ=='') = Inr (replicate 750000 0 @ [0x41]) \<and>
   base64ToUint8Array (replicate 1000000 CHR ''A'' @ ''QQ=='')
     = Inr (replicate 750000 0 @ [0x41, 0, 0])"
proof -
  show ?thesis
    using chunked_appends_zero_per_padding [OF bigInput_valid]
    by (simp add: bigInput_single bigInput_split(1))
qed

section \<open>The PDF header\<close>

lemma four_cons: "4 \<le> length xs \<Longrightarrow> \<exists>a b c d rest. xs = a # b # c # d # rest"
  by (auto simp: numeral_eq_Suc Suc_le_length_iff)

lemma isPdfHeader_iff: "isPdfHeader bytes \<longleftrightarrow> take 4 bytes = pdfMagic"
proof
  assume h: "isPdfHeader bytes"
  then have "length bytes \<ge> 4" by (simp add: isPdfHeader_def)
  then obtain a b c d rest where "bytes = a # b # c # d # rest"
    using four_cons by blast
  with h show "take 4 bytes = pdfMagic" by (simp add: isPdfHeader_def pdfMagic_def)
next
  assume t: "take 4 bytes = pdfMagic"
  then have "length (take 4 bytes) = 4" by (simp add: pdfMagic_def)
  then have "length bytes \<ge> 4" by simp
  then obtain a b c d rest where "bytes = a # b # c # d # rest"
    using four_cons by blast
  with t show "isPdfHeader bytes" by (simp add: isPdfHeader_def pdfMagic_def)
qed

lemma header_check: "(length bytes < 4 \<or> \<not> isPdfHeader bytes) \<longleftrightarrow> take 4 bytes \<noteq> pdfMagic"
proof -
  have "(length bytes < 4 \<or> \<not> isPdfHeader bytes) \<longleftrightarrow> \<not> isPdfHeader bytes"
    by (auto simp: isPdfHeader_def)
  then show ?thesis by (simp only: isPdfHeader_iff)
qed

lemma base64_path:
  assumes "fetchAndDecode viewFetched = Inr (dat, bytes)"
  shows "take 4 bytes = pdfMagic \<Longrightarrow>
           \<exists>doc. loadDocumentViaBase64 viewFetched src = Inr doc \<and> base64Data doc = bytes \<and>
                 loadDocumentForSource v viewFetched downloadFetched src = (openPdf v doc, None)"
    and "take 4 bytes \<noteq> pdfMagic \<Longrightarrow> loadDocumentViaBase64 viewFetched src = Inl NotValidPdf"
  using assms by (simp_all add: loadDocumentViaBase64_def loadDocumentForSource_def header_check)

lemma download_path:
  assumes "downloadFetched = Some response" "dr_ok response"
  shows "take 4 (dr_body response) = pdfMagic \<Longrightarrow>
           \<exists>doc. loadDocumentViaDownload downloadFetched src = Inr doc \<and>
                 base64Data doc = dr_body response \<and>
                 (\<forall>e. loadDocumentViaBase64 viewFetched src = Inl e \<longrightarrow>
                      loadDocumentForSource v viewFetched downloadFetched src
                        = (openPdf v doc, None))"
    and "take 4 (dr_body response) \<noteq> pdfMagic \<Longrightarrow>
           loadDocumentViaDownload downloadFetched src = Inl DownloadNotValidPdf \<and>
           (\<forall>e. loadDocumentViaBase64 viewFetched src = Inl e \<longrightarrow>
                loadDocumentForSource v viewFetched downloadFetched src
                  = (v, Some DownloadNotValidPdf))"
  using assms
  by (simp_all add: loadDocumentViaDownload_def loadDocumentForSource_def header_check Let_def)

lemma base64_document_is_pdf:
  "loadDocumentViaBase64 viewFetched src = Inr doc \<Longrightarrow> take 4 (base64Data doc) = pdfMagic"
  by (auto simp: loadDocumentViaBase64_def header_check split: sum.splits prod.splits if_splits)

lemma download_document_is_pdf:
  "loadDocumentViaDownload downloadFetched src = Inr doc \<Longrightarrow> take 4 (base64Data doc) = pdfMagic"
  by (auto simp: loadDocumentViaDownload_def Let_def header_check split: option.splits if_splits)

lemma loadDocumentForSource_outcome:
  "case loadDocumentForSource v viewFetched downloadFetched src of
     (v', None) \<Rightarrow>
       \<exists>doc. v' = openPdf v doc \<and> currentPdf v' = Some doc \<and> isViewerOpen v' \<and>
             take 4 (base64Data doc) = pdfMagic
   | (v', Some e) \<Rightarrow> v' = v"
  using base64_document_is_pdf [of viewFetched src] download_document_is_pdf [of downloadFetched src]
  by (auto simp: loadDocumentForSource_def openPdf_def split: sum.splits)

lemma loadDocumentForSource_succeeds_iff:
  "snd (loadDocumentForSource v viewFetched downloadFetched src) = None \<longleftrightarrow>
     (\<exists>doc. loadDocumentViaBase64 viewFetched src = Inr doc) \<or>
     (\<exists>doc. loadDocumentViaDownload downloadFetched src = Inr doc)"
  by (auto simp: loadDocumentForSource_def split: sum.splits)

lemmas base64_eval = isValidBase64_def isBase64Char_def base64Alphabet_def base64ToUint8Array_def
  padEnd4_def singlePass_def atob_def stripPadding_def isAsciiWhitespace_def
  isRegexWhitespace_def base64Value_def charCodeAt_def Let_def

lemma decode_pdf_example:
  "fetchAndDecode (Some (viewResponse ''JVBERi0xLjQ=''))
     = Inr (the (vr_json (viewResponse ''JVBERi0xLjQ='')),
            [0x25, 0x50, 0x44, 0x46, 0x2D, 0x31, 0x2E, 0x34])"
  by (simp add: fetchAndDecode_def viewResponse_def base64_eval)

lemma decode_text_example:
  "fetchAndDecode (Some (viewResponse ''SGVsbG8gd29ybGQh''))
     = Inr (the (vr_json (viewResponse ''SGVsbG8gd29ybGQh'')),
            [0x48, 0x65, 0x6C, 0x6C, 0x6F, 0x20, 0x77, 0x6F, 0x72, 0x6C, 0x64, 0x21])"
  by (simp add: fetchAndDecode_def viewResponse_def base64_eval)

text \<open>
  C5. In both paths the first four bytes decide, and a document whose bytes start with
  \<open>%PDF\<close> reaches the viewer. When the view response passes its checks and its base64 text
  decodes to \<open>bytes\<close>: if they start with \<open>%PDF\<close>, the base64 path produces the document
  holding them and \<open>loadDocumentForSource\<close> opens the viewer on it; otherwise the path fails
  with its format error. When the download succeeds: if the downloaded bytes start with
  \<open>%PDF\<close>, the download path produces the document holding them, and whenever the base64
  path has failed \<open>loadDocumentForSource\<close> opens the viewer on it; otherwise the path fails
  with its own format error, which \<open>loadDocumentForSource\<close> alerts, leaving the viewer as it
  was, whenever the base64 path has failed. \<open>loadDocumentForSource\<close> lets no error escape:
  it returns without an error exactly when one of the two paths produced a document, the
  viewer is then open on a document that starts with \<open>%PDF\<close>, and otherwise the viewer is
  as it was and the error is alerted.
\<close>

theorem pdf_header_decides:
  "(fetchAndDecode viewFetched = Inr (dat, bytes) \<longrightarrow>
      (take 4 bytes = pdfMagic \<longrightarrow>
         (\<exists>doc. loadDocumentViaBase64 viewFetched src = Inr doc \<and> base64Data doc = bytes \<and>
                loadDocumentForSource v viewFetched downloadFetched src = (openPdf v doc, None))) \<and>
      (take 4 bytes \<noteq> pdfMagic \<longrightarrow> loadDocumentViaBase64 viewFetched src = Inl NotValidPdf)) \<and>
   (downloadFetched = Some response \<and> dr_ok response \<longrightarrow>
      (take 4 (dr_body response) = pdfMagic \<longrightarrow>
         (\<exists>doc. loadDocumentViaDownload downloadFetched src = Inr doc \<and>
                base64Data doc = dr_body response \<and>
                (\<forall>e. loadDocumentViaBase64 viewFetched src = Inl e \<longrightarrow>
                     loadDocumentForSource v viewFetched downloadFetched src
                       = (openPdf v doc, None)))) \<and>
      (take 4 (dr_body response) \<noteq> pdfMagic \<longrightarrow>
         loadDocumentViaDownload downloadFetched src = Inl DownloadNotValidPdf \<and>
         (\<forall>e. loadDocumentViaBase64 viewFetched src = Inl e \<longrightarrow>
              loadDocumentForSource v viewFetched downloadFetched src
                = (v, Some DownloadNotValidPdf)))) \<and>
   (snd (loadDocumentForSource v viewFetched downloadFetched src) = None \<longleftrightarrow>
      (\<exists>doc. loadDocumentViaBase64 viewFetched src = Inr doc) \<or>
      (\<exists>doc. loadDocumentViaDownload downloadFetched src = Inr doc)) \<and>
   (case loadDocumentForSource v viewFetched downloadFetched src of
      (v', None) \<Rightarrow>
        \<exists>doc. v' = openPdf v doc \<and> currentPdf v' = Some doc \<and> isViewerOpen v' \<and>
              take 4 (base64Data doc) = pdfMagic
    | (v', Some e) \<Rightarrow> v' = v)"
proof (intro conjI impI)
  assume fd: "fetchAndDecode viewFetched = Inr (dat, bytes)" and m: "take 4 bytes = pdfMagic"
  show "\<exists>doc. loadDocumentViaBase64 viewFetched src = Inr doc \<and> base64Data doc = bytes \<and>
              loadDocumentForSource v viewFetched downloadFetched src = (openPdf v doc, None)"
    using fd m by (rule base64_path(1))
next
  assume fd: "fetchAndDecode viewFetched = Inr (dat, bytes)" and m: "take 4 bytes \<noteq> pdfMagic"
  show "loadDocumentViaBase64 viewFetched src = Inl NotValidPdf"
    using fd m by (rule base64_path(2))
next
  assume d: "downloadFetched = Some response \<and> dr_ok response"
    and m: "take 4 (dr_body response) = pdfMagic"
  show "\<exists>doc. loadDocumentViaDownload downloadFetched src = Inr doc \<and>
              base64Data doc = dr_body response \<and>
              (\<forall>e. loadDocumentViaBase64 viewFetched src = Inl e \<longrightarrow>
                   loadDocumentForSource v viewFetched downloadFetched src
                     = (openPdf v doc, None))"
    using d m download_path(1) by blast
next
  assume d: "downloadFetched = Some response \<and> dr_ok response"
    and m: "take 4 (dr_body response) \<noteq> pdfMagic"
  show "loadDocumentViaDownload downloadFetched src = Inl DownloadNotValidPdf"
    using d m download_path(2) by blast
  show "\<forall>e. loadDocumentViaBase64 viewFetched src = Inl e \<longrightarrow>
            loadDocumentForSource v viewFetched downloadFetched src
              = (v, Some DownloadNotValidPdf)"
    using d m download_path(2) by blast
next
  show "snd (loadDocumentForSource v viewFetched downloadFetched src) = None \<longleftrightarrow>
      (\<exists>doc. loadDocumentViaBase64 viewFetched src = Inr doc) \<or>
      (\<exists>doc. loadDocumentViaDownload downloadFetched src = Inr doc)"
    by (rule loadDocumentForSource_succeeds_iff)
next
  show "case loadDocumentForSource v viewFetched downloadFetched src of
      (v', None) \<Rightarrow>
        \<exists>doc. v' = openPdf v doc \<and> currentPdf v' = Some doc \<and> isViewerOpen v' \<and>
              take 4 (base64Data doc) = pdfMagic
    | (v', Some e) \<Rightarrow> v' = v"
    by (rule loadDocumentForSource_outcome)
qed

theorem pdf_header_decides_witness:
  "(\<exists>doc. loadDocumentViaBase64 (Some (viewResponse ''JVBERi0xLjQ='')) (exampleSource None) = Inr doc \<and>
          base64Data doc = [0x25, 0x50, 0x44, 0x46, 0x2D, 0x31, 0x2E, 0x34] \<and>
          loadDocumentForSource closedViewer (Some (viewResponse ''JVBERi0xLjQ='')) None
            (exampleSource None) = (openPdf closedViewer doc, None)) \<and>
   loadDocumentViaBase64 (Some (viewResponse ''SGVsbG8gd29ybGQh'')) (exampleSource None)
     = Inl NotValidPdf \<and>
   loadDocumentViaDownload (Some (downloadResponse [1, 2, 3, 4])) (exampleSource None)
     = Inl DownloadNotValidPdf \<and>
   loadDocumentForSource closedViewer (Some (viewResponse ''SGVsbG8gd29ybGQh''))
     (Some (downloadResponse [1, 2, 3, 4])) (exampleSource None)
     = (closedViewer, Some DownloadNotValidPdf) \<and>
   (\<exists>doc. loadDocumentViaDownload (Some (downloadResponse [0x25, 0x50, 0x44, 0x46, 0x2D]))
            (exampleSource None) = Inr doc \<and>
          base64Data doc = [0x25, 0x50, 0x44, 0x46, 0x2D] \<and>
          loadDocumentForSource closedViewer (Some (viewResponse ''SGVsbG8gd29ybGQh''))
            (Some (downloadResponse [0x25, 0x50, 0x44, 0x46, 0x2D])) (exampleSource None)
            = (openPdf closedViewer doc, None))"
proof -
  let ?pdfView = "Some (viewResponse ''JVBERi0xLjQ='')"
  let ?textView = "Some (viewResponse ''SGVsbG8gd29ybGQh'')"
  let ?text = "[0x48, 0x65, 0x6C, 0x6C, 0x6F, 0x20, 0x77, 0x6F, 0x72, 0x6C, 0x64, 0x21] :: Uint8Array"
  let ?src = "exampleSource None"
  have d1: "fetchAndDecode ?pdfView
              = Inr (the (vr_json (viewResponse ''JVBERi0xLjQ='')),
                     [0x25, 0x50, 0x44, 0x46, 0x2D, 0x31, 0x2E, 0x34])"
    by (rule decode_pdf_example)
  have m1: "take 4 [0x25, 0x50, 0x44, 0x46, 0x2D, 0x31, 0x2E, 0x34 :: byte] = pdfMagic"
    by (simp add: pdfMagic_def)
  have d2: "fetchAndDecode ?textView = Inr (the (vr_json (viewResponse ''SGVsbG8gd29ybGQh'')), ?text)"
    by (rule decode_text_example)
  have m2: "take 4 ?text \<noteq> pdfMagic"
    by (simp add: pdfMagic_def)
  have r3: "Some (downloadResponse [1, 2, 3, 4]) = Some (downloadResponse [1, 2, 3, 4]) \<and>
            dr_ok (downloadResponse [1, 2, 3, 4])"
    by (simp add: downloadResponse_def)
  have m3: "take 4 (dr_body (downloadResponse [1, 2, 3, 4])) \<noteq> pdfMagic"
    by (simp add: pdfMagic_def downloadResponse_def)
  have r4: "Some (downloadResponse [0x25, 0x50, 0x44, 0x46, 0x2D])
              = Some (downloadResponse [0x25, 0x50, 0x44, 0x46, 0x2D]) \<and>
            dr_ok (downloadResponse [0x25, 0x50, 0x44, 0x46, 0x2D])"
    by (simp add: downloadResponse_def)
  have m4: "take 4 (dr_body (downloadResponse [0x25, 0x50, 0x44, 0x46, 0x2D])) = pdfMagic"
    by (simp add: pdfMagic_def downloadResponse_def)
  have b4: "dr_body (downloadResponse [0x25, 0x50, 0x44, 0x46, 0x2D]) = [0x25, 0x50, 0x44, 0x46, 0x2D]"
    by (simp add: downloadResponse_def)
  have c1: "\<exists>doc. loadDocumentViaBase64 ?pdfView ?src = Inr doc \<and>
              base64Data doc = [0x25, 0x50, 0x44, 0x46, 0x2D, 0x31, 0x2E, 0x34] \<and>
              loadDocumentForSource closedViewer ?pdfView None ?src = (openPdf closedViewer doc, None)"
    using pdf_header_decides [of ?pdfView "the (vr_json (viewResponse ''JVBERi0xLjQ=''))"
        "[0x25, 0x50, 0x44, 0x46, 0x2D, 0x31, 0x2E, 0x34]" ?src closedViewer None] d1 m1
    by blast
  have c2: "loadDocumentViaBase64 ?textView ?src = Inl NotValidPdf"
    using pdf_header_decides [of ?textView "the (vr_json (viewResponse ''SGVsbG8gd29ybGQh''))"
        ?text ?src closedViewer None] d2 m2
    by blast
  have c3: "loadDocumentViaDownload (Some (downloadResponse [1, 2, 3, 4])) ?src
              = Inl DownloadNotValidPdf \<and>
            loadDocumentForSource closedViewer ?textView (Some (downloadResponse [1, 2, 3, 4])) ?src
              = (closedViewer, Some DownloadNotValidPdf)"
    using pdf_header_decides [of ?textView "the (vr_json (viewResponse ''SGVsbG8gd29ybGQh''))"
        ?text ?src closedViewer "Some (downloadResponse [1, 2, 3, 4])"
        "downloadResponse [1, 2, 3, 4]"] r3 m3 c2
    by blast
  have c4: "\<exists>doc. loadDocumentViaDownload (Some (downloadResponse [0x25, 0x50, 0x44, 0x46, 0x2D])) ?src
                  = Inr doc \<and>
              base64Data doc = dr_body (downloadResponse [0x25, 0x50, 0x44, 0x46, 0x2D]) \<and>
              loadDocumentForSource closedViewer ?textView
                (Some (downloadResponse [0x25, 0x50, 0x44, 0x46, 0x2D])) ?src
                = (openPdf closedViewer doc, None)"
    using pdf_header_decides [of ?textView "the (vr_json (viewResponse ''SGVsbG8gd29ybGQh''))"
        ?text ?src closedViewer "Some (downloadResponse [0x25, 0x50, 0x44, 0x46, 0x2D])"
        "downloadResponse [0x25, 0x50, 0x44, 0x46, 0x2D]"] r4 m4 c2
    by blast
  show ?thesis
    using c1 c2 c3 c4 unfolding b4 by blast
qed

section \<open>Citation markers\<close>

lemma firstSeen_snoc:
  "firstSeen (xs @ [x]) = (if x \<in> set xs then firstSeen xs else firstSeen xs @ [x])"
  by (simp add: firstSeen_def)

lemma distinct_firstSeen [simp]: "distinct (firstSeen xs)"
  by (simp add: firstSeen_def)

lemma set_firstSeen [simp]: "set (firstSeen xs) = set xs"
  by (simp add: firstSeen_def)

lemma map_entry_tabulate:
  "distinct ds \<Longrightarrow>
   AList.map_entry i f (map (\<lambda>d. (d, g d)) ds)
     = map (\<lambda>d. (d, if d = i then f (g d) else g d)) ds"
  by (induction ds) auto

lemma map_of_tabulate: "map_of (map (\<lambda>d. (d, g d)) ds) i = (if i \<in> set ds then Some (g i) else None)"
  by (induction ds) auto

lemma groupByDocument_snoc: "groupByDocument (rs @ [r]) = addToGroup (groupByDocument rs) r"
  by (simp add: groupByDocument_def)

lemma groupByDocument_eq:
  "groupByDocument rs
     = map (\<lambda>d. (d, filter (\<lambda>x. doc_id (document x) = d) rs))
         (firstSeen (map (\<lambda>x. doc_id (document x)) rs))"
proof (induction rs rule: rev_induct)
  case Nil
  then show ?case by (simp add: groupByDocument_def firstSeen_def)
next
  case (snoc r rs)
  let ?i = "doc_id (document r)"
  let ?ids = "map (\<lambda>x. doc_id (document x)) rs"
  let ?g = "\<lambda>d. filter (\<lambda>x. doc_id (document x) = d) rs"
  let ?g' = "\<lambda>d. filter (\<lambda>x. doc_id (document x) = d) (rs @ [r])"
  show ?case
  proof (cases "?i \<in> set ?ids")
    case True
    have "addToGroup (map (\<lambda>d. (d, ?g d)) (firstSeen ?ids)) r
            = AList.map_entry ?i (\<lambda>g. g @ [r]) (map (\<lambda>d. (d, ?g d)) (firstSeen ?ids))"
      using True by (simp add: addToGroup_def map_of_tabulate Let_def)
    also have "\<dots> = map (\<lambda>d. (d, if d = ?i then ?g d @ [r] else ?g d)) (firstSeen ?ids)"
      by (rule map_entry_tabulate) simp
    also have "\<dots> = map (\<lambda>d. (d, ?g' d)) (firstSeen ?ids)"
      by (rule map_cong) auto
    finally show ?thesis
      using True by (simp add: groupByDocument_snoc snoc.IH firstSeen_snoc)
  next
    case False
    then have e: "?g ?i = []"
      by (force simp: filter_empty_conv image_iff)
    have "addToGroup (map (\<lambda>d. (d, ?g d)) (firstSeen ?ids)) r
            = AList.map_entry ?i (\<lambda>g. g @ [r]) (map (\<lambda>d. (d, ?g d)) (firstSeen ?ids) @ [(?i, [])])"
      using False by (simp add: addToGroup_def map_of_tabulate Let_def)
    also have "map (\<lambda>d. (d, ?g d)) (firstSeen ?ids) @ [(?i, [])]
                 = map (\<lambda>d. (d, ?g d)) (firstSeen ?ids @ [?i])"
      by (simp add: e)
    also have "AList.map_entry ?i (\<lambda>g. g @ [r]) (map (\<lambda>d. (d, ?g d)) (firstSeen ?ids @ [?i]))
                 = map (\<lambda>d. (d, if d = ?i then ?g d @ [r] else ?g d)) (firstSeen ?ids @ [?i])"
      using False by (intro map_entry_tabulate) simp
    also have "\<dots> = map (\<lambda>d. (d, ?g' d)) (firstSeen ?ids @ [?i])"
      by (rule map_cong) auto
    finally show ?thesis
      using False by (simp add: groupByDocument_snoc snoc.IH firstSeen_snoc)
  qed
qed

lemma find_filter: "filter P xs = y # ys \<Longrightarrow> find P xs = Some y"
  by (induction xs) (auto split: if_splits)

lemma viewerPage_eq: "viewerPage pageRead txt hp = (if 0 < hp then hp else 1)"
  by (simp add: viewerPage_def highlightChanged_def pdfLoaded_def pdfDataChanged_def
      findAndHighlightText_def)

text \<open>
  C8. The handler takes only the document index: whatever message the clicked marker is in,
  it resolves the index against the first message of the current conversation that has
  search results. The groups of that message are its results grouped by document id, in the
  order in which the ids are first seen; the index, counted from 1, selects the group; the
  source that is loaded is the first result of the message for that document, and once the
  document is loaded the viewer shows that result's page, or page 1 if the page is absent or
  not positive.
\<close>

theorem document_link_resolves_first_grounded_message:
  assumes m: "find (\<lambda>msg. case searchResults msg of None \<Rightarrow> False | Some rs \<Rightarrow> length rs > 0)
                (messages c) = Some m"
    and rs: "searchResults m = Some rs"
    and lo: "1 \<le> docIndex"
    and hi: "docIndex \<le> int (length (firstSeen (map (\<lambda>x. doc_id (document x)) rs)))"
  shows "groupByDocument rs
           = map (\<lambda>d. (d, filter (\<lambda>x. doc_id (document x) = d) rs))
               (firstSeen (map (\<lambda>x. doc_id (document x)) rs)) \<and>
         (\<exists>r. handleDocumentLinkClick (Some c) docIndex = Some r \<and>
              find (\<lambda>x. doc_id (document x)
                           = firstSeen (map (\<lambda>x. doc_id (document x)) rs) ! nat (docIndex - 1)) rs
                = Some (cr_sourceData r) \<and>
              cr_highlightText r = sr_text (cr_sourceData r) \<and>
              viewerPage pageRead (cr_highlightText r) (cr_highlightPage r)
                = (case page (cr_sourceData r) of None \<Rightarrow> 1 | Some p \<Rightarrow> if 0 < p then p else 1))"
proof
  show "groupByDocument rs
           = map (\<lambda>d. (d, filter (\<lambda>x. doc_id (document x) = d) rs))
               (firstSeen (map (\<lambda>x. doc_id (document x)) rs))"
    by (rule groupByDocument_eq)
next
  let ?ds = "firstSeen (map (\<lambda>x. doc_id (document x)) rs)"
  let ?n = "nat (docIndex - 1)"
  let ?d = "?ds ! ?n"
  let ?group = "filter (\<lambda>x. doc_id (document x) = ?d) rs"
  have n: "?n < length ?ds" using lo hi by linarith
  then have "?d \<in> set ?ds" by (rule nth_mem)
  then have "?d \<in> set (map (\<lambda>x. doc_id (document x)) rs)" by simp
  then have "?group \<noteq> []" by (auto simp: filter_empty_conv)
  then obtain src rest where g: "?group = src # rest" by (cases ?group) auto
  have groups: "map snd (groupByDocument rs) ! ?n = src # rest"
    using n by (simp add: groupByDocument_eq o_def g)
  have len: "length (map snd (groupByDocument rs)) = length ?ds"
    by (simp add: groupByDocument_eq)
  have range: "\<not> (docIndex - 1 < 0 \<or> int (length (map snd (groupByDocument rs))) \<le> docIndex - 1)"
    unfolding len using lo hi by linarith
  let ?r = "\<lparr> cr_sourceData = src, cr_highlightText = sr_text src,
              cr_highlightPage = (case page src of None \<Rightarrow> 1 | Some p \<Rightarrow> if p = 0 then 1 else p) \<rparr>"
  have click: "handleDocumentLinkClick (Some c) docIndex = Some ?r"
    using range by (simp add: handleDocumentLinkClick_def m rs Let_def groups)
  have first: "find (\<lambda>x. doc_id (document x) = ?d) rs = Some src"
    using g by (rule find_filter)
  have pg: "viewerPage pageRead (sr_text src)
              (case page src of None \<Rightarrow> 1 | Some p \<Rightarrow> if p = 0 then 1 else p)
            = (case page src of None \<Rightarrow> 1 | Some p \<Rightarrow> if 0 < p then p else 1)"
    by (simp add: viewerPage_eq split: option.splits)
  show "\<exists>r. handleDocumentLinkClick (Some c) docIndex = Some r \<and>
              find (\<lambda>x. doc_id (document x) = ?d) rs = Some (cr_sourceData r) \<and>
              cr_highlightText r = sr_text (cr_sourceData r) \<and>
              viewerPage pageRead (cr_highlightText r) (cr_highlightPage r)
                = (case page (cr_sourceData r) of None \<Rightarrow> 1 | Some p \<Rightarrow> if 0 < p then p else 1)"
    using click first pg by (intro exI [of _ ?r]) simp
qed

theorem document_link_resolves_first_grounded_message_witness:
  "(\<exists>r. handleDocumentLinkClick (Some twoAnswers) 1 = Some r \<and>
        cr_sourceData r = sourceOf ''d1'' (Some 3) \<and>
        viewerPage True (cr_highlightText r) (cr_highlightPage r) = 3) \<and>
   searchResults (last (messages twoAnswers)) = Some [sourceOf ''d2'' (Some 7)] \<and>
   map fst (groupByDocument [sourceOf ''d2'' (Some 7)]) = [''d2'']"
proof -
  let ?m = "groundedAnswer ''first answer [1, P. 3]'' [sourceOf ''d1'' (Some 3)] 2"
  let ?rs = "[sourceOf ''d1'' (Some 3)]"
  have h1: "find (\<lambda>msg. case searchResults msg of None \<Rightarrow> False | Some rs \<Rightarrow> length rs > 0)
              (messages twoAnswers) = Some ?m"
    by (simp add: twoAnswers_def blankConversation_def userMessage_def groundedAnswer_def
        assistantMessage_def)
  have h2: "searchResults ?m = Some ?rs"
    by (simp add: groundedAnswer_def assistantMessage_def)
  have ds: "firstSeen (map (\<lambda>x. doc_id (document x)) ?rs) = [''d1'']"
    by (simp add: firstSeen_def sourceOf_def)
  have h3: "(1::int) \<le> 1" by simp
  have h4: "1 \<le> int (length (firstSeen (map (\<lambda>x. doc_id (document x)) ?rs)))"
    unfolding ds by simp
  from document_link_resolves_first_grounded_message [OF h1 h2 h3 h4, of True]
  obtain r where r: "handleDocumentLinkClick (Some twoAnswers) 1 = Some r"
    and f: "find (\<lambda>x. doc_id (document x)
                        = firstSeen (map (\<lambda>x. doc_id (document x)) ?rs) ! nat (1 - 1)) ?rs
              = Some (cr_sourceData r)"
    and p: "viewerPage True (cr_highlightText r) (cr_highlightPage r)
              = (case page (cr_sourceData r) of None \<Rightarrow> 1 | Some p \<Rightarrow> if 0 < p then p else 1)"
    by blast
  from f have s: "cr_sourceData r = sourceOf ''d1'' (Some 3)"
    unfolding ds by (simp add: sourceOf_def)
  have pg: "viewerPage True (cr_highlightText r) (cr_highlightPage r) = 3"
    unfolding p s by (simp add: sourceOf_def)
  have l: "searchResults (last (messages twoAnswers)) = Some [sourceOf ''d2'' (Some 7)]"
    by (simp add: twoAnswers_def blankConversation_def groundedAnswer_def assistantMessage_def)
  have g: "map fst (groupByDocument [sourceOf ''d2'' (Some 7)]) = [''d2'']"
    by (simp add: groupByDocument_def addToGroup_def sourceOf_def Let_def)
  from r s pg l g show ?thesis by blast
qed

section \<open>BibTeX: formatting, then parsing\<close>

lemma scanFields_skip: "\<not> isWordChar c \<Longrightarrow> scanFields (c # s) acc = scanFields s acc"
  by (simp add: scanFields.simps(2) matchField_def)

lemma not_word [simp]:
  "\<not> isWordChar CHR '' ''" "\<not> isWordChar CHR '',''" "\<not> isWordChar CHR ''\<newline>''"
  "\<not> isWordChar CHR ''=''" "\<not> isWordChar CHR ''{''" "\<not> isWordChar CHR ''}''"
  "\<not> isWordChar CHR ''@''"
  by (simp_all add: isWordChar_def)

lemma ws_simps [simp]:
  "isRegexWhitespace CHR '' ''" "\<not> isRegexWhitespace CHR ''=''" "\<not> isRegexWhitespace CHR ''{''"
  "isRegexWhitespace CHR ''\<newline>''"
  by (simp_all add: isRegexWhitespace_def)

lemma matchField_line:
  assumes k: "key \<noteq> []" "\<And>x. x \<in> set key \<Longrightarrow> isWordChar x"
    and v: "v \<noteq> []" "CHR ''}'' \<notin> set v"
  shows "matchField (key @ '' = {'' @ v @ ''}'' @ rest) = Some (key, v, rest)"
proof -
  have tw: "takeWhile isWordChar (key @ '' = {'' @ v @ ''}'' @ rest) = key"
    using k(2) by (simp add: takeWhile_append2)
  have dw: "dropWhile isWordChar (key @ '' = {'' @ v @ ''}'' @ rest) = '' = {'' @ v @ ''}'' @ rest"
    using k(2) by (simp add: dropWhile_append2)
  have nb: "\<And>x. x \<in> set v \<Longrightarrow> x \<noteq> CHR ''}''" using v(2) by auto
  have vt: "takeWhile (\<lambda>c. c \<noteq> CHR ''}'') (v @ CHR ''}'' # rest) = v"
    using nb by (simp add: takeWhile_append2)
  have vd: "dropWhile (\<lambda>c. c \<noteq> CHR ''}'') (v @ CHR ''}'' # rest) = CHR ''}'' # rest"
    using nb by (simp add: dropWhile_append2)
  show ?thesis
    unfolding matchField_def tw dw using k(1) v(1) by (simp add: vt vd Let_def)
qed

lemma scanFields_line:
  assumes k: "key \<noteq> []" "\<And>x. x \<in> set key \<Longrightarrow> isWordChar x"
    and v: "v \<noteq> []" "CHR ''}'' \<notin> set v"
  shows "scanFields (bibField key v @ rest) acc
           = scanFields rest (setField (toLowerCase key) (trim v) acc)"
proof -
  obtain c cs where key: "key = c # cs" using k(1) by (cases key) auto
  have m: "matchField (c # cs @ '' = {'' @ v @ ''}'' @ '',\<newline>'' @ rest)
             = Some (key, v, '',\<newline>'' @ rest)"
    using matchField_line [OF k v, of "'',\<newline>'' @ rest"] by (simp add: key)
  have "scanFields (bibField key v @ rest) acc
          = scanFields (c # cs @ '' = {'' @ v @ ''}'' @ '',\<newline>'' @ rest) acc"
    by (simp add: bibField_def key scanFields_skip)
  also have "\<dots> = scanFields ('',\<newline>'' @ rest) (setField (toLowerCase key) (trim v) acc)"
    by (simp only: scanFields.simps(2) m option.case prod.case)
  also have "\<dots> = scanFields rest (setField (toLowerCase key) (trim v) acc)"
    by (simp add: scanFields_skip)
  finally show ?thesis .
qed

lemma scanFields_lines:
  "list_all lineOk fs \<Longrightarrow>
   scanFields (concat (map (\<lambda>(k, v). bibField k v) fs) @ rest) acc
     = scanFields rest (foldl (\<lambda>a (k, v). setField (toLowerCase k) (trim v) a) acc fs)"
proof (induction fs arbitrary: acc)
  case Nil
  then show ?case by simp
next
  case (Cons kv fs)
  obtain k v where kv: "kv = (k, v)" by (cases kv)
  from Cons.prems kv have ok: "k \<noteq> []" "\<And>x. x \<in> set k \<Longrightarrow> isWordChar x" "v \<noteq> []" "CHR ''}'' \<notin> set v"
    and rest: "list_all lineOk fs"
    by (auto simp: lineOk_def list_all_iff)
  show ?case
    using scanFields_line [OF ok] Cons.IH [OF rest] by (simp add: kv)
qed

section \<open>BibTeX: an entry the formatter writes\<close>

lemma lastIndexOf_snoc: "lastIndexOf c (xs @ [c]) = Some (length xs)"
  by (simp add: lastIndexOf_def)

lemma no_at_lines:
  "list_all lineOk fs \<Longrightarrow> CHR ''@'' \<notin> set (concat (map (\<lambda>(k, v). bibField k v) fs))"
proof (induction fs)
  case Nil
  then show ?case by simp
next
  case (Cons kv fs)
  obtain k v where kv: "kv = (k, v)" by (cases kv)
  from Cons.prems kv have "list_all isWordChar k" "CHR ''@'' \<notin> set v"
    by (simp_all add: lineOk_def)
  then have "CHR ''@'' \<notin> set (bibField k v)"
    by (auto simp: bibField_def list_all_iff)
  then show ?case using Cons by (simp add: kv)
qed

lemma matchEntry_shape:
  assumes ty: "ty \<noteq> []" "\<And>x. x \<in> set ty \<Longrightarrow> isWordChar x"
    and ident: "ident \<noteq> []" "CHR '','' \<notin> set ident" "\<not> isRegexWhitespace (hd ident)"
    and s4: "CHR ''@'' \<notin> set s4" "lastIndexOf CHR ''}'' s4 = Some j" "j \<noteq> 0"
  shows "matchEntry (CHR ''@'' # ty @ CHR ''{'' # ident @ CHR '','' # s4)
           = Some (ty, ident, take j s4, drop (Suc j) s4)"
proof -
  obtain i0 irest where id: "ident = i0 # irest" using ident(1) by (cases ident) auto
  have tw: "takeWhile isWordChar (ty @ CHR ''{'' # ident @ CHR '','' # s4) = ty"
    using ty(2) by (simp add: takeWhile_append2)
  have dw: "dropWhile isWordChar (ty @ CHR ''{'' # ident @ CHR '','' # s4)
              = CHR ''{'' # ident @ CHR '','' # s4"
    using ty(2) by (simp add: dropWhile_append2)
  have wsi: "takeWhile isRegexWhitespace (ident @ CHR '','' # s4) = []"
    "dropWhile isRegexWhitespace (ident @ CHR '','' # s4) = ident @ CHR '','' # s4"
    using ident(3) by (simp_all add: id)
  have nc: "\<And>x. x \<in> set ident \<Longrightarrow> x \<noteq> CHR '',''" using ident(2) by auto
  have ti: "takeWhile (\<lambda>c. c \<noteq> CHR '','') (ident @ CHR '','' # s4) = ident"
    using nc by (simp add: takeWhile_append2)
  have di: "dropWhile (\<lambda>c. c \<noteq> CHR '','') (ident @ CHR '','' # s4) = CHR '','' # s4"
    using nc by (simp add: dropWhile_append2)
  have na: "\<And>x. x \<in> set s4 \<Longrightarrow> x \<noteq> CHR ''@''" using s4(1) by auto
  have sp: "takeWhile (\<lambda>c. c \<noteq> CHR ''@'') s4 = s4"
    using na by (simp only: takeWhile_eq_all_conv) blast
  have af: "dropWhile (\<lambda>c. c \<noteq> CHR ''@'') s4 = []"
    using na by (simp only: dropWhile_eq_Nil_conv) blast
  show ?thesis
    using ty(1) ident(1) s4(3)
    by (simp add: matchEntry_def tw dw wsi ti di sp af s4(2) Let_def)
qed

lemma matchEntry_generated:
  assumes ty: "ty \<noteq> []" "\<And>x. x \<in> set ty \<Longrightarrow> isWordChar x"
    and ident: "ident \<noteq> []" "CHR '','' \<notin> set ident" "\<not> isRegexWhitespace (hd ident)"
    and body: "CHR ''@'' \<notin> set body"
  shows "matchEntry (''@'' @ ty @ ''{'' @ ident @ '',\<newline>'' @ body @ ''}'')
           = Some (ty, ident, ''\<newline>'' @ body, [])"
proof -
  have li: "lastIndexOf CHR ''}'' (CHR ''\<newline>'' # body @ ''}'') = Some (Suc (length body))"
    using lastIndexOf_snoc [of "CHR ''}''" "CHR ''\<newline>'' # body"] by simp
  have "matchEntry (CHR ''@'' # ty @ CHR ''{'' # ident @ CHR '','' # (CHR ''\<newline>'' # body @ ''}''))
          = Some (ty, ident, take (Suc (length body)) (CHR ''\<newline>'' # body @ ''}''),
                  drop (Suc (Suc (length body))) (CHR ''\<newline>'' # body @ ''}''))"
    using ty ident li by (intro matchEntry_shape) (use body in auto)
  then show ?thesis by simp
qed

lemma foldl_update_fresh:
  "distinct (map fst xs) \<Longrightarrow> set (map fst xs) \<inter> set (map fst acc) = {} \<Longrightarrow>
   foldl (\<lambda>a (k, v). AList.update k v a) acc xs = acc @ xs"
proof (induction xs arbitrary: acc)
  case Nil
  then show ?case by simp
next
  case (Cons kv xs)
  obtain k v where kv: "kv = (k, v)" by (cases kv)
  from Cons.prems kv have k: "k \<notin> fst ` set acc" by auto
  then have u: "AList.update k v acc = acc @ [(k, v)]"
    by (induction acc) auto
  have "foldl (\<lambda>a (k, v). AList.update k v a) (acc @ [(k, v)]) xs = (acc @ [(k, v)]) @ xs"
    using Cons.prems kv by (intro Cons.IH) auto
  then show ?case by (simp add: kv u)
qed

lemma foldl_update_map:
  "foldl (\<lambda>a (k, v). AList.update (f k) (g v) a) acc xs
     = foldl (\<lambda>a (k, v). AList.update k v a) acc (map (\<lambda>(k, v). (f k, g v)) xs)"
  by (induction xs arbitrary: acc) (auto)

lemma update_fresh_snoc: "k \<notin> fst ` set xs \<Longrightarrow> AList.update k v xs = xs @ [(k, v)]"
  by (induction xs) auto

section \<open>BibTeX: what the formatter emits\<close>

lemma generateBibTeX_lines:
  "map_of p ''authors'' \<noteq> None \<Longrightarrow>
   generateBibTeX p
     = Inr (''@'' @ entryType p @ ''{'' @ rendered (map_of p ''id'') @ '',\<newline>''
            @ concat (map (\<lambda>(k, v). bibField k v) (emittedFields p)) @ ''}'')"
  by (auto simp: generateBibTeX_def emittedFields_def entryType_def rendered_def Let_def)

lemma emittedFields_keys:
  "fst ` set (emittedFields p)
     \<subseteq> {''author'', ''title'', ''year'', ''journal'', ''doi'', ''eprint'', ''archivePrefix'', ''url''}"
  by (auto simp: emittedFields_def)

lemma key_words:
  "k \<in> {''author'', ''title'', ''year'', ''journal'', ''doi'', ''eprint'', ''archivePrefix'', ''url''}
     \<Longrightarrow> k \<noteq> [] \<and> list_all isWordChar k"
  by (auto simp: isWordChar_def)

lemma emittedFields_lineOk: "printable p \<Longrightarrow> list_all lineOk (emittedFields p)"
proof -
  assume pr: "printable p"
  have "lineOk kv" if "kv \<in> set (emittedFields p)" for kv
  proof -
    obtain k v where kv: "kv = (k, v)" by (cases kv)
    have "k \<in> fst ` set (emittedFields p)" using that kv by force
    then have "k \<noteq> [] \<and> list_all isWordChar k"
      using emittedFields_keys [of p] key_words [of k] by blast
    moreover have "v \<noteq> [] \<and> CHR ''}'' \<notin> set v \<and> CHR ''@'' \<notin> set v"
      using pr that kv by (auto simp: printable_def list_all_iff)
    ultimately show ?thesis by (simp add: lineOk_def kv)
  qed
  then show ?thesis by (simp add: list_all_iff)
qed

lemma lower_keys:
  "toLowerCase ''author'' = ''author''" "toLowerCase ''title'' = ''title''"
  "toLowerCase ''year'' = ''year''" "toLowerCase ''journal'' = ''journal''"
  "toLowerCase ''doi'' = ''doi''" "toLowerCase ''eprint'' = ''eprint''"
  "toLowerCase ''archivePrefix'' = ''archiveprefix''" "toLowerCase ''url'' = ''url''"
  "toLowerCase ''article'' = ''article''" "toLowerCase ''misc'' = ''misc''"
  by (simp_all add: toLowerCase_def toLowerChar_def Let_def char_of_eq_iff)

lemma lowered_fst:
  "map fst (map (\<lambda>(k, v). (toLowerCase k, trim v)) xs) = map toLowerCase (map fst xs)"
  by (induction xs) auto

lemma lowered_distinct:
  "distinct (map fst (map (\<lambda>(k, v). (toLowerCase k, trim v)) (emittedFields p)))"
  unfolding lowered_fst
  by (cases "truthy (map_of p ''journal'')"; cases "truthy (map_of p ''doi'')";
      cases "truthy (map_of p ''arxiv'')"; cases "truthy (map_of p ''url'')";
      simp add: emittedFields_def lower_keys)

lemma lowered_keys:
  "set (map fst (map (\<lambda>(k, v). (toLowerCase k, trim v)) (emittedFields p)))
     \<subseteq> {''author'', ''title'', ''year'', ''journal'', ''doi'', ''eprint'', ''archiveprefix'', ''url''}"
  unfolding lowered_fst
  by (cases "truthy (map_of p ''journal'')"; cases "truthy (map_of p ''doi'')";
      cases "truthy (map_of p ''arxiv'')"; cases "truthy (map_of p ''url'')";
      simp add: emittedFields_def lower_keys)

lemma lower_entryType: "toLowerCase (entryType p) = entryType p"
  by (simp add: entryType_def lower_keys)

lemma entryType_word: "entryType p \<noteq> []" "x \<in> set (entryType p) \<Longrightarrow> isWordChar x"
  by (auto simp: entryType_def isWordChar_def split: if_splits)

section \<open>BibTeX: the keys id and type are free\<close>

lemma id_fresh:
  "''id'' \<notin> fst ` set (map (\<lambda>(k, v). (toLowerCase k, trim v)) (emittedFields p))"
proof
  assume "''id'' \<in> fst ` set (map (\<lambda>(k, v). (toLowerCase k, trim v)) (emittedFields p))"
  then have "''id'' \<in> set (map fst (map (\<lambda>(k, v). (toLowerCase k, trim v)) (emittedFields p)))"
    by (simp only: set_map)
  then have "''id'' \<in> {''author'', ''title'', ''year'', ''journal'', ''doi'', ''eprint'', ''archiveprefix'', ''url''}"
    using lowered_keys [of p] by (rule set_mp [rotated])
  then show False by simp
qed

lemma type_fresh:
  "''type'' \<notin> fst ` set (map (\<lambda>(k, v). (toLowerCase k, trim v)) (emittedFields p) @ [(''id'', i)])"
proof
  assume "''type'' \<in> fst ` set (map (\<lambda>(k, v). (toLowerCase k, trim v)) (emittedFields p) @ [(''id'', i)])"
  then have "''type'' \<in> set (map fst (map (\<lambda>(k, v). (toLowerCase k, trim v)) (emittedFields p)))"
    by (simp add: image_Un del: map_map)
  then have "''type'' \<in> {''author'', ''title'', ''year'', ''journal'', ''doi'', ''eprint'', ''archiveprefix'', ''url''}"
    using lowered_keys [of p] by (rule set_mp [rotated])
  then show False by simp
qed

section \<open>BibTeX: the fields read back from a generated body\<close>

lemma setField_name:
  "k \<noteq> ''__proto__'' \<Longrightarrow> \<not> isArrayIndex k \<Longrightarrow> setField k v a = AList.update k v a"
  by (simp add: setField_def setOwn_def)

lemma lowered_key_plain:
  "k \<in> {''author'', ''title'', ''year'', ''journal'', ''doi'', ''eprint'', ''archivePrefix'', ''url''}
     \<Longrightarrow> toLowerCase k \<noteq> ''__proto__'' \<and> \<not> isArrayIndex (toLowerCase k)"
  by (auto simp: lower_keys isArrayIndex_def isDigitChar_def)

lemma foldl_setField_keys:
  "fst ` set fs \<subseteq> {''author'', ''title'', ''year'', ''journal'', ''doi'', ''eprint'', ''archivePrefix'', ''url''}
     \<Longrightarrow> foldl (\<lambda>a (k, v). setField (toLowerCase k) (trim v) a) acc fs
           = foldl (\<lambda>a (k, v). AList.update (toLowerCase k) (trim v) a) acc fs"
proof (induction fs arbitrary: acc)
  case Nil
  then show ?case by simp
next
  case (Cons kv fs)
  obtain k v where kv: "kv = (k, v)" by (cases kv)
  from Cons.prems kv
  have k: "k \<in> {''author'', ''title'', ''year'', ''journal'', ''doi'', ''eprint'', ''archivePrefix'', ''url''}"
    and rest: "fst ` set fs \<subseteq> {''author'', ''title'', ''year'', ''journal'', ''doi'', ''eprint'', ''archivePrefix'', ''url''}"
    by auto
  have "setField (toLowerCase k) (trim v) acc = AList.update (toLowerCase k) (trim v) acc"
    using lowered_key_plain [OF k] by (intro setField_name) simp_all
  then show ?case using Cons.IH [OF rest] by (simp add: kv)
qed

lemma foldl_setField_emitted:
  "foldl (\<lambda>a (k, v). setField (toLowerCase k) (trim v) a) acc (emittedFields p)
     = foldl (\<lambda>a (k, v). AList.update (toLowerCase k) (trim v) a) acc (emittedFields p)"
  by (rule foldl_setField_keys) (rule emittedFields_keys)

lemma scanFields_generated:
  assumes ok: "list_all lineOk (emittedFields p)"
  shows "scanFields (CHR ''\<newline>'' # concat (map (\<lambda>(k, v). bibField k v) (emittedFields p))) []
           = map (\<lambda>(k, v). (toLowerCase k, trim v)) (emittedFields p)"
proof -
  let ?body = "concat (map (\<lambda>(k, v). bibField k v) (emittedFields p))"
  let ?fields = "map (\<lambda>(k, v). (toLowerCase k, trim v)) (emittedFields p)"
  have "scanFields (CHR ''\<newline>'' # ?body) [] = scanFields ?body []"
    by (rule scanFields_skip) (rule not_word(3))
  also have "\<dots> = scanFields (?body @ []) []"
    by (simp only: append_Nil2)
  also have "\<dots> = scanFields []
      (foldl (\<lambda>a (k, v). setField (toLowerCase k) (trim v) a) [] (emittedFields p))"
    using ok by (rule scanFields_lines)
  also have "\<dots> = foldl (\<lambda>a (k, v). setField (toLowerCase k) (trim v) a) [] (emittedFields p)"
    by (simp only: scanFields.simps(1))
  also have "\<dots> = foldl (\<lambda>a (k, v). AList.update (toLowerCase k) (trim v) a) [] (emittedFields p)"
    by (rule foldl_setField_emitted)
  also have "\<dots> = foldl (\<lambda>a (k, v). AList.update k v a) [] ?fields"
    by (rule foldl_update_map)
  also have "\<dots> = [] @ ?fields"
  proof (rule foldl_update_fresh)
    show "distinct (map fst ?fields)" by (rule lowered_distinct)
    show "set (map fst ?fields) \<inter> set (map fst []) = {}" by (simp only: list.map list.set Int_empty_right)
  qed
  finally show ?thesis by (simp only: append_Nil)
qed

section \<open>BibTeX: normal forms of the generated text\<close>

lemma matchEntry_cons:
  assumes ty: "ty \<noteq> []" "\<And>x. x \<in> set ty \<Longrightarrow> isWordChar x"
    and ident: "ident \<noteq> []" "CHR '','' \<notin> set ident" "\<not> isRegexWhitespace (hd ident)"
    and body: "CHR ''@'' \<notin> set body"
  shows "matchEntry (CHR ''@'' # ty @ CHR ''{'' # ident @ CHR '','' # CHR ''\<newline>'' # body @ [CHR ''}''])
           = Some (ty, ident, CHR ''\<newline>'' # body, [])"
  using matchEntry_generated [OF assms] by simp

lemma generateBibTeX_cons:
  "map_of p ''authors'' \<noteq> None \<Longrightarrow>
   generateBibTeX p
     = Inr (CHR ''@'' # entryType p @ CHR ''{'' # rendered (map_of p ''id'') @ CHR '','' # CHR ''\<newline>'' #
            concat (map (\<lambda>(k, v). bibField k v) (emittedFields p)) @ [CHR ''}''])"
  using generateBibTeX_lines [of p] by simp

section \<open>BibTeX: parsing a generated entry\<close>

lemma setOwn_Nil: "setOwn k v [] = [(k, v)]"
  by (simp add: setOwn_def)

lemma parse_generated:
  assumes pr: "printable p"
  shows "parseBibTeX (CHR ''@'' # entryType p @ CHR ''{'' # rendered (map_of p ''id'') @ CHR '','' # CHR ''\<newline>'' #
            concat (map (\<lambda>(k, v). bibField k v) (emittedFields p)) @ [CHR ''}''])
           = \<lparr> be_own =
                 [(rendered (map_of p ''id''),
                   map (\<lambda>(k, v). (toLowerCase k, trim v)) (emittedFields p)
                     @ [(''id'', rendered (map_of p ''id'')), (''type'', entryType p)])],
               be_proto = None \<rparr>"
proof -
  let ?ident = "rendered (map_of p ''id'')"
  let ?body = "concat (map (\<lambda>(k, v). bibField k v) (emittedFields p))"
  let ?rest = "entryType p @ CHR ''{'' # ?ident @ CHR '','' # CHR ''\<newline>'' # ?body @ [CHR ''}'']"
  let ?fields = "map (\<lambda>(k, v). (toLowerCase k, trim v)) (emittedFields p)"
  let ?empty = "\<lparr> be_own = [], be_proto = None \<rparr>"
  have i0: "?ident \<noteq> ''__proto__''" using pr by (simp add: printable_def)
  have i1: "?ident \<noteq> []" using pr by (simp add: printable_def)
  have i2: "CHR '','' \<notin> set ?ident" using pr by (simp add: printable_def)
  have i3: "\<not> isRegexWhitespace (hd ?ident)" using pr by (simp add: printable_def)
  have ok: "list_all lineOk (emittedFields p)" using pr by (rule emittedFields_lineOk)
  have me: "matchEntry (CHR ''@'' # ?rest) = Some (entryType p, ?ident, CHR ''\<newline>'' # ?body, [])"
    by (rule matchEntry_cons [OF entryType_word(1) entryType_word(2) i1 i2 i3 no_at_lines [OF ok]])
  have sf: "scanFields (CHR ''\<newline>'' # ?body) [] = ?fields"
    using ok by (rule scanFields_generated)
  have u1: "AList.update ''id'' ?ident ?fields = ?fields @ [(''id'', ?ident)]"
    by (rule update_fresh_snoc) (rule id_fresh)
  have u2: "AList.update ''type'' (entryType p) (?fields @ [(''id'', ?ident)])
              = (?fields @ [(''id'', ?ident)]) @ [(''type'', entryType p)]"
    by (rule update_fresh_snoc) (rule type_fresh)
  have eo: "entryObject ?fields ?ident (entryType p)
              = ?fields @ [(''id'', ?ident), (''type'', entryType p)]"
    by (simp only: entryObject_def lower_entryType u1 u2 append_assoc append_Cons append_Nil)
  have se: "setEntry ?ident (?fields @ [(''id'', ?ident), (''type'', entryType p)]) ?empty
              = \<lparr> be_own = [(?ident, ?fields @ [(''id'', ?ident), (''type'', entryType p)])],
                  be_proto = None \<rparr>"
    using i0 by (simp add: setEntry_def setOwn_Nil)
  have "scanEntries (CHR ''@'' # ?rest) ?empty
          = scanEntries []
              (setEntry ?ident
                 (entryObject (scanFields (CHR ''\<newline>'' # ?body) []) ?ident (entryType p)) ?empty)"
    by (simp only: scanEntries.simps(2) me option.case prod.case)
  also have "\<dots> = \<lparr> be_own = [(?ident, ?fields @ [(''id'', ?ident), (''type'', entryType p)])],
                       be_proto = None \<rparr>"
    by (simp only: scanEntries.simps(1) sf eo se)
  finally show ?thesis
    by (simp only: parseBibTeX_def)
qed

section \<open>BibTeX: the round trip\<close>

lemma examplePaper_printable: "printable examplePaper"
  by (simp add: printable_def examplePaper_def emittedFields_def rendered_def truthy_def
      isRegexWhitespace_def)

lemma examplePaper_fields:
  "map (\<lambda>(k, v). (toLowerCase k, trim v)) (emittedFields examplePaper)
     = [(''author'', ''A. Vaswani and N. Shazeer''), (''title'', ''Attention''),
        (''year'', ''2017''), (''eprint'', ''1706.03762''), (''archiveprefix'', ''arXiv''),
        (''url'', ''https://arxiv.org/abs/1706.03762'')]"
  by (simp add: examplePaper_def emittedFields_def rendered_def truthy_def lower_keys trim_def
      isRegexWhitespace_def)

lemma examplePaper_id_type:
  "rendered (map_of examplePaper ''id'') = ''p1''" "entryType examplePaper = ''misc''"
  by (simp_all add: examplePaper_def rendered_def entryType_def truthy_def)

lemmas bib_eval =
  parseBibTeX_def scanEntries.simps(2) scanFields.simps(2) matchEntry_def matchField_def
  lastIndexOf_def isWordChar_def isRegexWhitespace_def trim_def toLowerCase_def toLowerChar_def
  setEntry_def setField_def setOwn_def entryObject_def isArrayIndex_def isDigitChar_def
  Let_def char_of_eq_iff

lemma parse_authorRecord:
  "parseBibTeX authorRecord
     = \<lparr> be_own =
           [(''k1'', [(''author'', ''A. Author and B. Author''), (''title'', ''T''),
                      (''year'', ''2020''), (''id'', ''k1''), (''type'', ''misc'')])],
         be_proto = None \<rparr>"
  by (simp add: authorRecord_def bib_eval)

lemma format_authorRecord:
  "generateBibTeX [(''author'', ''A. Author and B. Author''), (''title'', ''T''),
                   (''year'', ''2020''), (''id'', ''k1''), (''type'', ''misc'')]
     = Inl TypeError"
  by (simp add: generateBibTeX_def)

lemma parse_volumeRecord:
  "parseBibTeX volumeRecord
     = \<lparr> be_own =
           [(''k2'', [(''authors'', ''A. Author, B. Author''), (''title'', ''T''),
                      (''year'', ''2020''), (''journal'', ''J''), (''volume'', ''12''),
                      (''id'', ''k2''), (''type'', ''article'')])],
         be_proto = None \<rparr>"
  by (simp add: volumeRecord_def bib_eval)

lemma format_volumeRecord:
  "generateBibTeX [(''authors'', ''A. Author, B. Author''), (''title'', ''T''),
                   (''year'', ''2020''), (''journal'', ''J''), (''volume'', ''12''),
                   (''id'', ''k2''), (''type'', ''article'')]
     = Inr ''@article{k2,\<newline>  author = {A. Author and B. Author},\<newline>  title = {T},\<newline>  year = {2020},\<newline>  journal = {J},\<newline>}''"
  by (simp add: generateBibTeX_def rendered_def truthy_def bibField_def)

lemma parse_formatted_volumeRecord:
  "parseBibTeX ''@article{k2,\<newline>  author = {A. Author and B. Author},\<newline>  title = {T},\<newline>  year = {2020},\<newline>  journal = {J},\<newline>}''
     = \<lparr> be_own =
           [(''k2'', [(''author'', ''A. Author and B. Author''), (''title'', ''T''),
                      (''year'', ''2020''), (''journal'', ''J''), (''id'', ''k2''),
                      (''type'', ''article'')])],
         be_proto = None \<rparr>"
  by (simp add: bib_eval)

text \<open>
  C9, in the direction that holds. The formatter is \<open>generateBibTeX\<close> and the parser is
  \<open>parseBibTeX\<close>. For a printable paper (its id is in particular not \<open>__proto__\<close>, which
  the parser's assignment would turn into the prototype instead of an entry) the formatter
  returns a text, and the object the parser returns for it has exactly one own entry, under
  the paper's id, and the prototype it was created with: the entry holds the emitted fields
  in the formatter's order, each key in lower case and each value trimmed, followed by
  \<open>id\<close> and \<open>type\<close>.
\<close>

theorem generateBibTeX_parseBibTeX_round_trip:
  "printable p \<Longrightarrow>
   \<exists>text. generateBibTeX p = Inr text \<and>
     parseBibTeX text
       = \<lparr> be_own =
             [(rendered (map_of p ''id''),
               map (\<lambda>(k, v). (toLowerCase k, trim v)) (emittedFields p)
                 @ [(''id'', rendered (map_of p ''id'')), (''type'', entryType p)])],
           be_proto = None \<rparr>"
proof -
  assume pr: "printable p"
  then have "map_of p ''authors'' \<noteq> None" by (simp add: printable_def)
  then have "generateBibTeX p
     = Inr (CHR ''@'' # entryType p @ CHR ''{'' # rendered (map_of p ''id'') @ CHR '','' # CHR ''\<newline>'' #
            concat (map (\<lambda>(k, v). bibField k v) (emittedFields p)) @ [CHR ''}''])"
    by (rule generateBibTeX_cons)
  with parse_generated [OF pr] show ?thesis by blast
qed

theorem generateBibTeX_parseBibTeX_round_trip_witness:
  "printable examplePaper \<and>
   (\<exists>text. generateBibTeX examplePaper = Inr text \<and>
      parseBibTeX text
        = \<lparr> be_own =
              [(''p1'',
                [(''author'', ''A. Vaswani and N. Shazeer''), (''title'', ''Attention''),
                 (''year'', ''2017''), (''eprint'', ''1706.03762''), (''archiveprefix'', ''arXiv''),
                 (''url'', ''https://arxiv.org/abs/1706.03762''), (''id'', ''p1''),
                 (''type'', ''misc'')])],
            be_proto = None \<rparr>)"
  using generateBibTeX_parseBibTeX_round_trip [of examplePaper] examplePaper_printable
  by (simp add: examplePaper_fields examplePaper_id_type)

text \<open>
  C9 as stated, parsing first. The record \<open>authorRecord\<close> is parsed into an entry with the
  field \<open>author\<close>; the formatter reads \<open>authors\<close>, which is absent, and throws. The
  record \<open>volumeRecord\<close> has \<open>authors\<close> and \<open>volume\<close>: the formatter returns a text, and
  the fields read back from it have \<open>author\<close> where the record had \<open>authors\<close> and no
  \<open>volume\<close>.
\<close>

theorem parseBibTeX_generateBibTeX_counterexample:
  "map_option generateBibTeX (map_of (be_own (parseBibTeX authorRecord)) ''k1'')
     = Some (Inl TypeError) \<and>
   map_option (map fst) (map_of (be_own (parseBibTeX volumeRecord)) ''k2'')
     = Some [''authors'', ''title'', ''year'', ''journal'', ''volume'', ''id'', ''type''] \<and>
   (case map_option generateBibTeX (map_of (be_own (parseBibTeX volumeRecord)) ''k2'') of
      Some (Inr text) \<Rightarrow> map_option (map fst) (map_of (be_own (parseBibTeX text)) ''k2'')
    | _ \<Rightarrow> None)
     = Some [''author'', ''title'', ''year'', ''journal'', ''id'', ''type'']"
  by (simp add: parse_authorRecord parse_volumeRecord format_authorRecord format_volumeRecord
      parse_formatted_volumeRecord)

section \<open>BibTeX: property assignment in the parser\<close>

text \<open>
  The two assignments that create no own property: a record whose id is \<open>__proto__\<close> becomes
  the prototype of the object returned, which then has no own entry, and a field named
  \<open>__proto__\<close> is dropped.
\<close>

lemma parse_proto_record:
  "parseBibTeX ''@misc{__proto__, title = {T}, __proto__ = {x}}''
     = \<lparr> be_own = [],
         be_proto = Some [(''title'', ''T''), (''id'', ''__proto__''), (''type'', ''misc'')] \<rparr>"
  by (simp add: bib_eval)

text \<open>Fields whose keys are array indices come first, in ascending order.\<close>

lemma parse_index_keys:
  "map_option (map fst)
     (map_of (be_own (parseBibTeX ''@misc{k, title = {T}, 10 = {b}, 9 = {a}}'')) ''k'')
     = Some [''9'', ''10'', ''title'', ''id'', ''type'']"
  by (simp add: bib_eval decimalValue_def)

end
